theory Spec2Isabelle
  imports Main
begin

section \<open>Data model of the transfer service\<close>

text \<open>
  The transfer service keeps its tasks in a map from task identifiers to task objects. The
  declarations of \<^verbatim>\<open>TransferTask\<close>, \<^verbatim>\<open>TransferSubTask\<close> and \<^verbatim>\<open>InitiateTransferPayload\<close>
  are imported by the service from a types module; the fields and the status literals below are
  the ones the service reads and writes. A JavaScript object that is mutated in place and
  reached through the map is modelled by an update of the map at its key. Optional fields
  (\<^verbatim>\<open>undefined\<close> when absent) are \<open>option\<close> values. \<^verbatim>\<open>new Date()\<close> is the
  parameter \<open>now\<close> of each operation, and \<^verbatim>\<open>uuidv4()\<close> is a supply \<open>uuid\<close> of
  identifiers indexed by the order of the calls.
\<close>

datatype sub_status = Queued | Connecting | Transferring | Completed | Failed | Cancelled

datatype task_status =
  TaskQueued | TaskInProgress | TaskCompleted | TaskFailed | TaskPartiallyCompleted
  | TaskCancelling | TaskCancelled

datatype transfer_method = Auto | Rsync | Scp

datatype item_type = File | Directory

datatype user_id = UserStr string | UserNum int

type_synonym task_id = string

type_synonym sub_task_id = string

type_synonym timestamp = nat

record SourceItem =
  name :: string
  path :: string
  itemType :: item_type

record InitiateTransferPayload =
  sourceConnectionId :: int
  connectionIds :: "int list"
  sourceItems :: "SourceItem list"
  remoteTargetPath :: string
  transferMethod :: transfer_method

record TransferSubTask =
  subTaskId :: sub_task_id
  connectionId :: int
  sourceItemName :: string
  status :: sub_status
  progress :: "int option"
  message :: "string option"
  transferMethodUsed :: "transfer_method option"
  startTime :: "timestamp option"
  endTime :: "timestamp option"

text \<open>The task's own \<^verbatim>\<open>status\<close> field is \<open>taskStatus\<close> here: the name is taken by the sub-task's field.\<close>

record TransferTask =
  taskId :: task_id
  taskStatus :: task_status
  userId :: user_id
  createdAt :: timestamp
  updatedAt :: timestamp
  subTasks :: "TransferSubTask list"
  payload :: InitiateTransferPayload
  overallProgress :: "int option"

text \<open>
  The service object: \<^verbatim>\<open>transferTasks\<close> and \<^verbatim>\<open>taskAbortControllers\<close>. An entry of the
  second map stands for the \<^verbatim>\<open>AbortController\<close> of the task, and its value is
  \<^verbatim>\<open>signal.aborted\<close>.
\<close>

record TransfersService =
  transferTasks :: "task_id \<rightharpoonup> TransferTask"
  taskAbortControllers :: "task_id \<rightharpoonup> bool"

definition MAX_CONCURRENT_SUB_TASKS :: nat where
  "MAX_CONCURRENT_SUB_TASKS = 5"

section \<open>Status updates\<close>

subsection \<open>updateOverallTaskStatus\<close>

definition setOverallStatus :: "timestamp \<Rightarrow> task_status \<Rightarrow> TransferTask \<Rightarrow> TransferTask" where
  "setOverallStatus now newStatus task =
     (let isCurrentStatusFinal =
            (taskStatus task = TaskCompleted \<or> taskStatus task = TaskFailed
              \<or> taskStatus task = TaskPartiallyCompleted);
          isNewStatusTransient = (newStatus = TaskQueued \<or> newStatus = TaskInProgress)
      in if isCurrentStatusFinal \<and> isNewStatusTransient then task
         else task\<lparr>taskStatus := newStatus, updatedAt := now\<rparr>)"

definition updateOverallTaskStatus ::
  "timestamp \<Rightarrow> task_id \<Rightarrow> task_status \<Rightarrow> TransfersService \<Rightarrow> TransfersService" where
  "updateOverallTaskStatus now tid newStatus s =
     (case transferTasks s tid of
        None \<Rightarrow> s
      | Some task \<Rightarrow>
          s\<lparr>transferTasks := (transferTasks s)(tid \<mapsto> setOverallStatus now newStatus task)\<rparr>)"

subsection \<open>updateOverallTaskStatusBasedOnSubTasks\<close>

record rollup_counts =
  completedCount :: nat
  failedCount :: nat
  inProgressCount :: nat
  queuedCount :: nat
  totalProgress :: int

definition no_counts :: rollup_counts where
  "no_counts = \<lparr>completedCount = 0, failedCount = 0, inProgressCount = 0, queuedCount = 0,
                 totalProgress = 0\<rparr>"

text \<open>The body of the \<^verbatim>\<open>forEach\<close>: a \<^verbatim>\<open>switch\<close> on the status with no case for \<^verbatim>\<open>'cancelled'\<close>.\<close>

definition count_sub_task :: "rollup_counts \<Rightarrow> TransferSubTask \<Rightarrow> rollup_counts" where
  "count_sub_task c st =
     (case status st of
        Completed \<Rightarrow>
          c\<lparr>completedCount := completedCount c + 1, totalProgress := totalProgress c + 100\<rparr>
      | Failed \<Rightarrow> c\<lparr>failedCount := failedCount c + 1\<rparr>
      | Transferring \<Rightarrow>
          c\<lparr>inProgressCount := inProgressCount c + 1,
            totalProgress := totalProgress c + (case progress st of Some p \<Rightarrow> p | None \<Rightarrow> 0)\<rparr>
      | Connecting \<Rightarrow>
          c\<lparr>inProgressCount := inProgressCount c + 1,
            totalProgress := totalProgress c + (case progress st of Some p \<Rightarrow> p | None \<Rightarrow> 5)\<rparr>
      | Queued \<Rightarrow> c\<lparr>queuedCount := queuedCount c + 1\<rparr>
      | Cancelled \<Rightarrow> c)"

definition count_sub_tasks :: "TransferSubTask list \<Rightarrow> rollup_counts" where
  "count_sub_tasks sts = foldl count_sub_task no_counts sts"

text \<open>The chain of conditions that chooses \<^verbatim>\<open>newOverallStatus\<close>, the inner \<^verbatim>\<open>if\<close> of its last branch included.\<close>

definition newOverallStatus :: "nat \<Rightarrow> rollup_counts \<Rightarrow> task_status" where
  "newOverallStatus numSubTasks c =
     (if failedCount c = numSubTasks then TaskFailed
      else if completedCount c = numSubTasks then TaskCompleted
      else if failedCount c > 0 \<and> completedCount c + failedCount c = numSubTasks
        then TaskPartiallyCompleted
      else if inProgressCount c > 0
              \<or> (queuedCount c > 0 \<and> (failedCount c > 0 \<or> completedCount c > 0))
        then TaskInProgress
      else if queuedCount c = numSubTasks then TaskQueued
      else if completedCount c > 0 \<and> queuedCount c > 0 \<and> failedCount c = 0
              \<and> inProgressCount c = 0
        then TaskPartiallyCompleted
      else TaskInProgress)"

text \<open>\<^verbatim>\<open>Math.round(totalProgress / numSubTasks)\<close> on a sum of integers: halves round upwards.\<close>

definition round_div :: "int \<Rightarrow> nat \<Rightarrow> int" where
  "round_div t n = (2 * t + int n) div (2 * int n)"

definition rollupTask :: "timestamp \<Rightarrow> TransferTask \<Rightarrow> TransferTask" where
  "rollupTask now task =
     (let numSubTasks = length (subTasks task)
      in if numSubTasks = 0 then task\<lparr>overallProgress := Some 0\<rparr>
         else
           (let c = count_sub_tasks (subTasks task);
                new = newOverallStatus numSubTasks c
            in task\<lparr>overallProgress := Some (round_div (totalProgress c) numSubTasks),
                    taskStatus := (if taskStatus task \<noteq> new then new else taskStatus task),
                    updatedAt := now\<rparr>))"

definition updateOverallTaskStatusBasedOnSubTasks ::
  "timestamp \<Rightarrow> task_id \<Rightarrow> TransfersService \<Rightarrow> TransfersService" where
  "updateOverallTaskStatusBasedOnSubTasks now tid s =
     (case transferTasks s tid of
        None \<Rightarrow> s
      | Some task \<Rightarrow> s\<lparr>transferTasks := (transferTasks s)(tid \<mapsto> rollupTask now task)\<rparr>)"

definition finalizeOverallTaskStatus ::
  "timestamp \<Rightarrow> task_id \<Rightarrow> TransfersService \<Rightarrow> TransfersService" where
  "finalizeOverallTaskStatus now tid s =
     (case transferTasks s tid of
        None \<Rightarrow> s
      | Some task \<Rightarrow> updateOverallTaskStatusBasedOnSubTasks now tid s)"

subsection \<open>updateSubTaskStatus\<close>

text \<open>\<^verbatim>\<open>subTasks.find(st => st.subTaskId === subTaskId)\<close>: the position of the first match.\<close>

fun findSubTask :: "sub_task_id \<Rightarrow> TransferSubTask list \<Rightarrow> nat option" where
  "findSubTask sid [] = None"
| "findSubTask sid (st # sts) =
     (if subTaskId st = sid then Some 0 else map_option Suc (findSubTask sid sts))"

text \<open>The assignments to the sub-task object once the guard has let the update through.\<close>

definition writeSubTask ::
  "timestamp \<Rightarrow> sub_status \<Rightarrow> int option \<Rightarrow> string option \<Rightarrow> TransferSubTask \<Rightarrow> TransferSubTask" where
  "writeSubTask now newStatus prog msg subTask =
     subTask\<lparr>status := newStatus,
             progress := (case prog of None \<Rightarrow> progress subTask
                          | Some p \<Rightarrow> Some (min 100 (max 0 p))),
             message := (case msg of None \<Rightarrow> message subTask | Some m \<Rightarrow> Some m),
             endTime := (if (newStatus = Completed \<or> newStatus = Failed) \<and> endTime subTask = None
                         then Some now else endTime subTask)\<rparr>"

definition updateSubTaskInTask ::
  "timestamp \<Rightarrow> sub_task_id \<Rightarrow> sub_status \<Rightarrow> int option \<Rightarrow> string option
     \<Rightarrow> TransferTask \<Rightarrow> TransferTask" where
  "updateSubTaskInTask now sid newStatus prog msg task =
     (case findSubTask sid (subTasks task) of
        None \<Rightarrow> task
      | Some i \<Rightarrow>
          (let subTask = subTasks task ! i
           in if (status subTask = Completed \<or> status subTask = Failed)
                 \<and> (newStatus \<noteq> Completed \<and> newStatus \<noteq> Failed)
              then task
              else rollupTask now
                     (task\<lparr>subTasks := (subTasks task)[i := writeSubTask now newStatus prog msg subTask],
                           updatedAt := now\<rparr>)))"

definition updateSubTaskStatus ::
  "timestamp \<Rightarrow> task_id \<Rightarrow> sub_task_id \<Rightarrow> sub_status \<Rightarrow> int option \<Rightarrow> string option
     \<Rightarrow> TransfersService \<Rightarrow> TransfersService" where
  "updateSubTaskStatus now tid sid newStatus prog msg s =
     (case transferTasks s tid of
        None \<Rightarrow> s
      | Some task \<Rightarrow>
          s\<lparr>transferTasks :=
              (transferTasks s)(tid \<mapsto> updateSubTaskInTask now sid newStatus prog msg task)\<rparr>)"

section \<open>Creating and cancelling a task\<close>

subsection \<open>cancelTransferTask\<close>

text \<open>
  The callback of \<^verbatim>\<open>task.subTasks.forEach\<close> at position \<open>i\<close> of the array: it reads the
  sub-task as it is when its turn comes.
\<close>

definition cancelSubTaskAt :: "timestamp \<Rightarrow> TransferTask \<Rightarrow> nat \<Rightarrow> TransferTask" where
  "cancelSubTaskAt now task i =
     (let subTask = subTasks task ! i
      in if status subTask \<noteq> Completed \<and> status subTask \<noteq> Failed \<and> status subTask \<noteq> Cancelled
         then updateSubTaskInTask now (subTaskId subTask) Cancelled (progress subTask)
                (Some ''Cancelled due to parent task cancellation.'') task
         else task)"

definition cancelTask :: "timestamp \<Rightarrow> TransferTask \<Rightarrow> TransferTask" where
  "cancelTask now task =
     (let task1 = (if taskStatus task \<noteq> TaskCompleted \<and> taskStatus task \<noteq> TaskFailed
                      \<and> taskStatus task \<noteq> TaskCancelled
                   then setOverallStatus now TaskCancelling task else task)
      in foldl (cancelSubTaskAt now) task1 [0..<length (subTasks task1)])"

text \<open>
  The result is the returned boolean and the service afterwards. \<^verbatim>\<open>abortController.abort()\<close>
  sets the flag of the controller; the listeners it runs belong to the processing of the
  task and are part of the \<open>Cancel\<close> event below.
\<close>

definition cancelTransferTask ::
  "timestamp \<Rightarrow> task_id \<Rightarrow> user_id \<Rightarrow> TransfersService \<Rightarrow> bool \<times> TransfersService" where
  "cancelTransferTask now tid uid s =
     (case transferTasks s tid of
        None \<Rightarrow> (False, s)
      | Some task \<Rightarrow>
          if userId task \<noteq> uid then (False, s)
          else
            (case taskAbortControllers s tid of
               None \<Rightarrow> (False, s)
             | Some aborted \<Rightarrow>
                 (True, s\<lparr>transferTasks := (transferTasks s)(tid \<mapsto> cancelTask now task),
                          taskAbortControllers := (taskAbortControllers s)(tid \<mapsto> True)\<rparr>)))"

subsection \<open>initiateNewTransfer\<close>

text \<open>
  The two nested \<^verbatim>\<open>for\<close> loops push one sub-task for each target and each source item. The
  task identifier is the first \<^verbatim>\<open>uuidv4()\<close> call, the sub-task pushed onto an array of
  length \<open>k\<close> takes call number \<open>k + 1\<close>.
\<close>

fun pushSourceItems ::
  "(nat \<Rightarrow> string) \<Rightarrow> timestamp \<Rightarrow> int \<Rightarrow> SourceItem list \<Rightarrow> TransferSubTask list
     \<Rightarrow> TransferSubTask list" where
  "pushSourceItems uuid now cid [] acc = acc"
| "pushSourceItems uuid now cid (item # items) acc =
     pushSourceItems uuid now cid items
       (acc @ [\<lparr>subTaskId = uuid (Suc (length acc)), connectionId = cid,
                sourceItemName = name item, status = Queued, progress = None, message = None,
                transferMethodUsed = None, startTime = Some now, endTime = None\<rparr>])"

fun pushConnections ::
  "(nat \<Rightarrow> string) \<Rightarrow> timestamp \<Rightarrow> int list \<Rightarrow> SourceItem list \<Rightarrow> TransferSubTask list
     \<Rightarrow> TransferSubTask list" where
  "pushConnections uuid now [] items acc = acc"
| "pushConnections uuid now (cid # cids) items acc =
     pushConnections uuid now cids items (pushSourceItems uuid now cid items acc)"

definition newTask ::
  "(nat \<Rightarrow> string) \<Rightarrow> timestamp \<Rightarrow> InitiateTransferPayload \<Rightarrow> user_id \<Rightarrow> TransferTask" where
  "newTask uuid now p uid =
     \<lparr>taskId = uuid 0, taskStatus = TaskQueued, userId = uid, createdAt = now, updatedAt = now,
      subTasks = pushConnections uuid now (connectionIds p) (sourceItems p) [],
      payload = p, overallProgress = None\<rparr>"

text \<open>
  \<^verbatim>\<open>processTransferTask\<close> is called before \<^verbatim>\<open>initiateNewTransfer\<close> returns and runs up to its
  first \<^verbatim>\<open>await\<close>: with a known task and a signal that is not aborted it sets the overall
  status to in-progress and suspends; with an aborted signal it sets cancelled, deletes the
  controller and returns.
\<close>

definition processTransferTask_enter ::
  "timestamp \<Rightarrow> task_id \<Rightarrow> TransfersService \<Rightarrow> TransfersService" where
  "processTransferTask_enter now tid s =
     (case transferTasks s tid of
        None \<Rightarrow> s
      | Some task \<Rightarrow>
          if taskAbortControllers s tid = Some True
          then (updateOverallTaskStatus now tid TaskCancelled s)
                 \<lparr>taskAbortControllers := (taskAbortControllers s)(tid := None)\<rparr>
          else updateOverallTaskStatus now tid TaskInProgress s)"

definition initiateNewTransfer ::
  "(nat \<Rightarrow> string) \<Rightarrow> timestamp \<Rightarrow> InitiateTransferPayload \<Rightarrow> user_id \<Rightarrow> TransfersService
     \<Rightarrow> TransferTask \<times> TransfersService" where
  "initiateNewTransfer uuid now p uid s =
     (let task = newTask uuid now p uid;
          s1 = s\<lparr>taskAbortControllers := (taskAbortControllers s)(taskId task \<mapsto> False)\<rparr>;
          s2 = s1\<lparr>transferTasks := (transferTasks s1)(taskId task \<mapsto> task)\<rparr>;
          s3 = processTransferTask_enter now (taskId task) s2
      in (case transferTasks s3 (taskId task) of Some t \<Rightarrow> (t, s3) | None \<Rightarrow> (task, s3)))"

section \<open>Processing a task\<close>

text \<open>
  \<^verbatim>\<open>processTransferTask\<close> runs on the event loop: between two \<^verbatim>\<open>await\<close>s its code is not
  interrupted, and it continues when something outside settles what it waits for. The model
  is a state machine. Its state holds the service, the signal the function was given, the
  point where the function is suspended, and the variables of the closure that schedules
  the sub-tasks; each event is one turn of the loop. \<open>pendingWrappers\<close> holds the positions
  whose \<^verbatim>\<open>processSingleSubTaskWrapper\<close> promise has been created and has not run its
  \<^verbatim>\<open>finally\<close> callback yet.
\<close>

datatype settlement = Resolved | RejectedAbort

datatype phase = AwaitSourceCredentials | AwaitSourceConnect | AwaitSubTasks | Finished

datatype outcome = Normal | AbortError | OtherError

record Processing =
  service :: TransfersService
  procTaskId :: task_id
  signalAborted :: bool
  phase :: phase
  currentlyActiveSubTasks :: nat
  currentSubTaskIndex :: nat
  totalSubTasks :: nat
  pendingWrappers :: "nat set"
  allTasksCompleted :: "settlement option"
  onAbortOverall :: bool

datatype event =
    SourceCredentials bool
  | SourceConnected bool
  | Cancel user_id
  | SubTaskProgress nat int "string option"
  | SubTaskSettled nat sub_status "string option"
  | Resume

fun decimal :: "nat \<Rightarrow> string" where
  "decimal n =
     (if n < 10 then [char_of (48 + n)] else decimal (n div 10) @ [char_of (48 + n mod 10)])"

definition show_int :: "int \<Rightarrow> string" where
  "show_int i = (if i < 0 then CHR ''-'' # decimal (nat (- i)) else decimal (nat i))"

definition resolveAllTasksCompleted :: "Processing \<Rightarrow> Processing" where
  "resolveAllTasksCompleted P =
     (if allTasksCompleted P = None then P\<lparr>allTasksCompleted := Some Resolved\<rparr> else P)"

definition rejectAllTasksCompleted :: "Processing \<Rightarrow> Processing" where
  "rejectAllTasksCompleted P =
     (if allTasksCompleted P = None then P\<lparr>allTasksCompleted := Some RejectedAbort\<rparr> else P)"

definition subTaskAt :: "Processing \<Rightarrow> nat \<Rightarrow> TransferSubTask option" where
  "subTaskAt P i =
     (case transferTasks (service P) (procTaskId P) of
        None \<Rightarrow> None
      | Some task \<Rightarrow> if i < length (subTasks task) then Some (subTasks task ! i) else None)"

text \<open>
  \<^verbatim>\<open>processSingleSubTaskWrapper\<close> up to its first \<^verbatim>\<open>await\<close>, which the call in the
  scheduling loop runs at once.
\<close>

definition launchWrapper :: "timestamp \<Rightarrow> TransferSubTask \<Rightarrow> Processing \<Rightarrow> Processing" where
  "launchWrapper now subTask P =
     (let tid = procTaskId P; s = service P
      in if signalAborted P
         then P\<lparr>service := updateSubTaskStatus now tid (subTaskId subTask) Cancelled None
                              (Some ''Cancelled before start.'') s\<rparr>
         else
           (case transferTasks s tid of
              None \<Rightarrow> P
            | Some task \<Rightarrow>
                (case find (\<lambda>it. name it = sourceItemName subTask) (sourceItems (payload task)) of
                   None \<Rightarrow>
                     P\<lparr>service := updateSubTaskStatus now tid (subTaskId subTask) Failed None
                         (Some (''Source item '' @ [CHR 0x27] @ sourceItemName subTask @ [CHR 0x27]
                                 @ '' not found in payload.'')) s\<rparr>
                 | Some item \<Rightarrow>
                     P\<lparr>service := updateSubTaskStatus now tid (subTaskId subTask) Connecting None
                         (Some (''Preparing transfer for '' @ name item @ '' to target ID ''
                                 @ show_int (connectionId subTask))) s\<rparr>)))"

text \<open>The \<^verbatim>\<open>while\<close> loop of \<^verbatim>\<open>launchNextSubTaskIfPossible\<close>.\<close>

function launchLoop :: "timestamp \<Rightarrow> Processing \<Rightarrow> Processing" where
  "launchLoop now P =
     (if currentlyActiveSubTasks P < MAX_CONCURRENT_SUB_TASKS
         \<and> currentSubTaskIndex P < totalSubTasks P
      then
        (case subTaskAt P (currentSubTaskIndex P) of
           None \<Rightarrow> P
         | Some subTaskToProcess \<Rightarrow>
             if status subTaskToProcess = Cancelled
             then
               (let P1 = P\<lparr>currentSubTaskIndex := currentSubTaskIndex P + 1\<rparr>
                in launchLoop now
                     (if currentSubTaskIndex P1 = totalSubTasks P1 \<and> currentlyActiveSubTasks P1 = 0
                      then resolveAllTasksCompleted (P1\<lparr>onAbortOverall := False\<rparr>)
                      else P1))
             else
               launchLoop now
                 (launchWrapper now subTaskToProcess
                    (P\<lparr>currentlyActiveSubTasks := currentlyActiveSubTasks P + 1,
                       currentSubTaskIndex := currentSubTaskIndex P + 1,
                       pendingWrappers := insert (currentSubTaskIndex P) (pendingWrappers P)\<rparr>)))
      else P)"
  by pat_completeness auto
termination
  by (relation "measure (\<lambda>(now, P). totalSubTasks P - currentSubTaskIndex P)")
     (auto simp: resolveAllTasksCompleted_def launchWrapper_def Let_def split: option.splits)

declare launchLoop.simps [simp del]

definition launchNextSubTaskIfPossible :: "timestamp \<Rightarrow> Processing \<Rightarrow> Processing" where
  "launchNextSubTaskIfPossible now P =
     (if signalAborted P
      then (if currentlyActiveSubTasks P = 0 then resolveAllTasksCompleted P else P)
      else
        (let P1 = launchLoop now P
         in if currentSubTaskIndex P1 = totalSubTasks P1 \<and> currentlyActiveSubTasks P1 = 0
               \<and> \<not> signalAborted P1
            then resolveAllTasksCompleted (P1\<lparr>onAbortOverall := False\<rparr>)
            else P1))"

text \<open>The \<^verbatim>\<open>finally\<close> callback attached to the wrapper's promise.\<close>

definition wrapperFinally :: "timestamp \<Rightarrow> nat \<Rightarrow> Processing \<Rightarrow> Processing" where
  "wrapperFinally now i P =
     (let P1 = P\<lparr>currentlyActiveSubTasks := currentlyActiveSubTasks P - 1,
                 pendingWrappers := pendingWrappers P - {i}\<rparr>
      in if signalAborted P1 \<and> currentlyActiveSubTasks P1 = 0
         then resolveAllTasksCompleted (P1\<lparr>onAbortOverall := False\<rparr>)
         else if currentSubTaskIndex P1 < totalSubTasks P1 \<and> \<not> signalAborted P1
         then launchNextSubTaskIfPossible now P1
         else if currentlyActiveSubTasks P1 = 0
         then resolveAllTasksCompleted (P1\<lparr>onAbortOverall := False\<rparr>)
         else P1)"

text \<open>
  The callback of the \<^verbatim>\<open>forEach\<close> that marks the sub-tasks when the signal is found aborted
  before the first launch.
\<close>

definition cancelUnfinishedAt :: "timestamp \<Rightarrow> TransferTask \<Rightarrow> nat \<Rightarrow> TransferTask" where
  "cancelUnfinishedAt now task i =
     (let st = subTasks task ! i
      in if status st \<noteq> Completed \<and> status st \<noteq> Failed
         then updateSubTaskInTask now (subTaskId st) Cancelled None
                (Some ''Task cancelled before sub-task execution.'') task
         else task)"

text \<open>The executor of the promise that \<^verbatim>\<open>processTransferTask\<close> awaits around the sub-tasks.\<close>

definition startSubTasks :: "timestamp \<Rightarrow> Processing \<Rightarrow> Processing" where
  "startSubTasks now P =
     (case transferTasks (service P) (procTaskId P) of
        None \<Rightarrow> P
      | Some task \<Rightarrow>
          (let P1 = P\<lparr>phase := AwaitSubTasks, currentlyActiveSubTasks := 0,
                      currentSubTaskIndex := 0, totalSubTasks := length (subTasks task),
                      allTasksCompleted := None, onAbortOverall := True\<rparr>
           in if totalSubTasks P1 = 0
              then resolveAllTasksCompleted (P1\<lparr>onAbortOverall := False\<rparr>)
              else if signalAborted P1
              then rejectAllTasksCompleted
                     (P1\<lparr>service := (service P1)
                            \<lparr>transferTasks := (transferTasks (service P1))
                               (procTaskId P \<mapsto>
                                  foldl (cancelUnfinishedAt now) task [0..<length (subTasks task)])\<rparr>,
                         onAbortOverall := False\<rparr>)
              else launchNextSubTaskIfPossible now P1))"

text \<open>
  The \<^verbatim>\<open>catch\<close> and \<^verbatim>\<open>finally\<close> blocks of \<^verbatim>\<open>processTransferTask\<close>, entered with the way
  the \<^verbatim>\<open>try\<close> block ended.
\<close>

definition processTransferTask_exit :: "timestamp \<Rightarrow> outcome \<Rightarrow> Processing \<Rightarrow> Processing" where
  "processTransferTask_exit now out P =
     (let tid = procTaskId P;
          s1 = (case out of
                  Normal \<Rightarrow> service P
                | AbortError \<Rightarrow> updateOverallTaskStatus now tid TaskCancelled (service P)
                | OtherError \<Rightarrow> updateOverallTaskStatus now tid TaskFailed (service P));
          s2 = finalizeOverallTaskStatus now tid s1
      in P\<lparr>service := s2\<lparr>taskAbortControllers := (taskAbortControllers s2)(tid := None)\<rparr>,
           phase := Finished\<rparr>)"

text \<open>
  One turn of the event loop.
  \<^item> \<open>SourceCredentials found\<close>: the lookup of the source connection returns.
  \<^item> \<open>SourceConnected ready\<close>: the SSH client to the source emits \<^verbatim>\<open>ready\<close> or \<^verbatim>\<open>error\<close>.
  \<^item> \<open>Cancel uid\<close>: \<^verbatim>\<open>cancelTransferTask\<close> is called for this task; when it aborts the signal,
    the listeners registered by \<^verbatim>\<open>processTransferTask\<close> run.
  \<^item> \<open>SubTaskProgress i p msg\<close>: the running wrapper of position \<open>i\<close> reports
    \<^verbatim>\<open>'transferring'\<close>; each such report follows a check that the signal is not aborted.
  \<^item> \<open>SubTaskSettled i st msg\<close>: the wrapper of position \<open>i\<close> makes its last status update
    and returns, and the \<^verbatim>\<open>finally\<close> callback of its promise runs. The wrapper reports
    \<^verbatim>\<open>'completed'\<close> only with a signal that is not aborted and \<^verbatim>\<open>'cancelled'\<close> only with
    an aborted one.
  \<^item> \<open>Resume\<close>: \<^verbatim>\<open>processTransferTask\<close> continues after the promise around the sub-tasks
    has settled.
\<close>

fun step :: "timestamp \<Rightarrow> event \<Rightarrow> Processing \<Rightarrow> Processing" where
  "step now (SourceCredentials found) P =
     (if phase P \<noteq> AwaitSourceCredentials then P
      else if signalAborted P then processTransferTask_exit now AbortError P
      else if \<not> found then processTransferTask_exit now OtherError P
      else P\<lparr>phase := AwaitSourceConnect\<rparr>)"
| "step now (SourceConnected ready) P =
     (if phase P \<noteq> AwaitSourceConnect then P
      else if \<not> ready then processTransferTask_exit now OtherError P
      else if signalAborted P then processTransferTask_exit now AbortError P
      else startSubTasks now P)"
| "step now (Cancel uid) P =
     (case cancelTransferTask now (procTaskId P) uid (service P) of
        (False, s) \<Rightarrow> P\<lparr>service := s\<rparr>
      | (True, s) \<Rightarrow>
          (let P1 = P\<lparr>service := s, signalAborted := True\<rparr>
           in if signalAborted P then P1
              else if phase P = AwaitSourceConnect then processTransferTask_exit now AbortError P1
              else if onAbortOverall P
              then rejectAllTasksCompleted (P1\<lparr>onAbortOverall := False\<rparr>)
              else P1))"
| "step now (SubTaskProgress i p msg) P =
     (if i \<in> pendingWrappers P \<and> \<not> signalAborted P
      then
        (case subTaskAt P i of
           None \<Rightarrow> P
         | Some st \<Rightarrow>
             P\<lparr>service := updateSubTaskStatus now (procTaskId P) (subTaskId st) Transferring
                             (Some p) msg (service P)\<rparr>)
      else P)"
| "step now (SubTaskSettled i fin msg) P =
     (if i \<in> pendingWrappers P
         \<and> (fin = Completed \<and> \<not> signalAborted P \<or> fin = Failed \<or> fin = Cancelled \<and> signalAborted P)
      then
        (case subTaskAt P i of
           None \<Rightarrow> P
         | Some st \<Rightarrow>
             wrapperFinally now i
               (P\<lparr>service := updateSubTaskStatus now (procTaskId P) (subTaskId st) fin
                                (if fin = Completed then Some 100 else None) msg (service P)\<rparr>))
      else P)"
| "step now Resume P =
     (if phase P = AwaitSubTasks
      then
        (case allTasksCompleted P of
           None \<Rightarrow> P
         | Some Resolved \<Rightarrow> processTransferTask_exit now Normal P
         | Some RejectedAbort \<Rightarrow> processTransferTask_exit now AbortError P)
      else P)"

fun run :: "(timestamp \<times> event) list \<Rightarrow> Processing \<Rightarrow> Processing" where
  "run [] P = P"
| "run ((now, e) # es) P = run es (step now e P)"

text \<open>
  The processing that \<^verbatim>\<open>initiateNewTransfer\<close> leaves behind: \<^verbatim>\<open>processTransferTask\<close>
  suspended at the lookup of the source connection, unless it returned at once.
\<close>

definition processingOf :: "TransfersService \<Rightarrow> task_id \<Rightarrow> Processing" where
  "processingOf s tid =
     \<lparr>service = s, procTaskId = tid, signalAborted = False,
      phase = (if transferTasks s tid \<noteq> None \<and> taskAbortControllers s tid = Some False
               then AwaitSourceCredentials else Finished),
      currentlyActiveSubTasks = 0, currentSubTaskIndex = 0, totalSubTasks = 0,
      pendingWrappers = {}, allTasksCompleted = None, onAbortOverall = False\<rparr>"

definition submit ::
  "(nat \<Rightarrow> string) \<Rightarrow> timestamp \<Rightarrow> InitiateTransferPayload \<Rightarrow> user_id \<Rightarrow> TransfersService
     \<Rightarrow> Processing" where
  "submit uuid now p uid s =
     (case initiateNewTransfer uuid now p uid s of (task, s1) \<Rightarrow> processingOf s1 (taskId task))"

text \<open>The number of sub-tasks of the processed task that are connecting or transferring.\<close>

definition activeSubTasks :: "Processing \<Rightarrow> nat" where
  "activeSubTasks P =
     (case transferTasks (service P) (procTaskId P) of
        None \<Rightarrow> 0
      | Some task \<Rightarrow>
          length (filter (\<lambda>st. status st = Connecting \<or> status st = Transferring) (subTasks task)))"

definition processedStatus :: "Processing \<Rightarrow> task_status option" where
  "processedStatus P = map_option taskStatus (transferTasks (service P) (procTaskId P))"

definition processedSubStatuses :: "Processing \<Rightarrow> sub_status list" where
  "processedSubStatuses P =
     (case transferTasks (service P) (procTaskId P) of
        None \<Rightarrow> []
      | Some task \<Rightarrow> map status (subTasks task))"

section \<open>The operations of the service on its state\<close>

text \<open>
  Every way in which the service changes \<^verbatim>\<open>transferTasks\<close> after a task has been created:
  the status methods, the cancellation, and the one direct write of a sub-task field,
  \<^verbatim>\<open>subTaskToUpdate.transferMethodUsed = commandTypeForLogic\<close>. The two query methods
  return copies and change nothing.
\<close>

definition setTransferMethodUsed ::
  "task_id \<Rightarrow> sub_task_id \<Rightarrow> transfer_method \<Rightarrow> TransfersService \<Rightarrow> TransfersService" where
  "setTransferMethodUsed tid sid m s =
     (case transferTasks s tid of
        None \<Rightarrow> s
      | Some task \<Rightarrow>
          (case findSubTask sid (subTasks task) of
             None \<Rightarrow> s
           | Some i \<Rightarrow>
               s\<lparr>transferTasks := (transferTasks s)
                   (tid \<mapsto> task\<lparr>subTasks :=
                      (subTasks task)[i := (subTasks task ! i)\<lparr>transferMethodUsed := Some m\<rparr>]\<rparr>)\<rparr>))"

datatype operation =
    UpdateSubTaskStatus task_id sub_task_id sub_status "int option" "string option"
  | UpdateOverallTaskStatus task_id task_status
  | UpdateOverallTaskStatusBasedOnSubTasks task_id
  | FinalizeOverallTaskStatus task_id
  | CancelTransferTask task_id user_id
  | SetTransferMethodUsed task_id sub_task_id transfer_method

fun perform :: "timestamp \<Rightarrow> operation \<Rightarrow> TransfersService \<Rightarrow> TransfersService" where
  "perform now (UpdateSubTaskStatus tid sid st prog msg) s =
     updateSubTaskStatus now tid sid st prog msg s"
| "perform now (UpdateOverallTaskStatus tid st) s = updateOverallTaskStatus now tid st s"
| "perform now (UpdateOverallTaskStatusBasedOnSubTasks tid) s =
     updateOverallTaskStatusBasedOnSubTasks now tid s"
| "perform now (FinalizeOverallTaskStatus tid) s = finalizeOverallTaskStatus now tid s"
| "perform now (CancelTransferTask tid uid) s = snd (cancelTransferTask now tid uid s)"
| "perform now (SetTransferMethodUsed tid sid m) s = setTransferMethodUsed tid sid m s"

fun performAll :: "(timestamp \<times> operation) list \<Rightarrow> TransfersService \<Rightarrow> TransfersService" where
  "performAll [] s = s"
| "performAll ((now, op) # ops) s = performAll ops (perform now op s)"

section \<open>The rollup as the specification words it\<close>

definition count_status :: "sub_status \<Rightarrow> sub_status list \<Rightarrow> nat" where
  "count_status x sts = length (filter (\<lambda>y. y = x) sts)"

text \<open>
  The rules of the specification in their order, for a non-empty list of sub-task statuses;
  the last rule gives partially-completed in every remaining case.
\<close>

definition spec_rollup :: "sub_status list \<Rightarrow> task_status" where
  "spec_rollup sts =
     (let n = length sts;
          completed = count_status Completed sts;
          failed = count_status Failed sts;
          active = count_status Connecting sts + count_status Transferring sts;
          queued = count_status Queued sts
      in if failed = n then TaskFailed
         else if completed = n then TaskCompleted
         else if failed > 0 \<and> completed + failed = n then TaskPartiallyCompleted
         else if active > 0 \<or> (queued > 0 \<and> (failed > 0 \<or> completed > 0)) then TaskInProgress
         else if queued = n then TaskQueued
         else TaskPartiallyCompleted)"

text \<open>The same rules with in-progress in every remaining case.\<close>

definition rollup_in_progress_otherwise :: "sub_status list \<Rightarrow> task_status" where
  "rollup_in_progress_otherwise sts =
     (let n = length sts;
          completed = count_status Completed sts;
          failed = count_status Failed sts;
          active = count_status Connecting sts + count_status Transferring sts;
          queued = count_status Queued sts
      in if failed = n then TaskFailed
         else if completed = n then TaskCompleted
         else if failed > 0 \<and> completed + failed = n then TaskPartiallyCompleted
         else if active > 0 \<or> (queued > 0 \<and> (failed > 0 \<or> completed > 0)) then TaskInProgress
         else if queued = n then TaskQueued
         else TaskInProgress)"

section \<open>A concrete transfer\<close>

text \<open>One file sent to two targets by user 7, on a service with no other task.\<close>

definition demoItem :: SourceItem where
  "demoItem = \<lparr>name = ''a.txt'', path = ''/data/a.txt'', itemType = File\<rparr>"

definition demoPayload :: InitiateTransferPayload where
  "demoPayload =
     \<lparr>sourceConnectionId = 1, connectionIds = [2, 3], sourceItems = [demoItem],
      remoteTargetPath = ''/backup'', transferMethod = Auto\<rparr>"

definition demoUuid :: "nat \<Rightarrow> string" where
  "demoUuid n = replicate n (CHR ''u'')"

definition demoOwner :: user_id where
  "demoOwner = UserNum 7"

definition emptyService :: TransfersService where
  "emptyService = \<lparr>transferTasks = Map.empty, taskAbortControllers = Map.empty\<rparr>"

definition demoSubmitted :: Processing where
  "demoSubmitted = submit demoUuid 0 demoPayload demoOwner emptyService"

text \<open>Both sub-tasks have been launched and are connecting.\<close>

definition demoRunning :: Processing where
  "demoRunning = run [(1, SourceCredentials True), (2, SourceConnected True)] demoSubmitted"

section \<open>Views of the state\<close>

definition subStatuses :: "TransfersService \<Rightarrow> task_id \<Rightarrow> sub_status list" where
  "subStatuses s tid =
     (case transferTasks s tid of None \<Rightarrow> [] | Some task \<Rightarrow> map status (subTasks task))"

definition endTimes :: "TransfersService \<Rightarrow> task_id \<Rightarrow> timestamp option list" where
  "endTimes s tid =
     (case transferTasks s tid of None \<Rightarrow> [] | Some task \<Rightarrow> map endTime (subTasks task))"

definition statusOf :: "TransfersService \<Rightarrow> task_id \<Rightarrow> task_status option" where
  "statusOf s tid = map_option taskStatus (transferTasks s tid)"

text \<open>The owner cancels while both sub-tasks are in flight.\<close>

definition demoCancelled :: Processing where
  "demoCancelled = step 3 (Cancel demoOwner) demoRunning"

text \<open>Both transfers succeed and the processing of the task ends.\<close>

definition demoCompleted :: Processing where
  "demoCompleted =
     run [(3, SubTaskSettled 0 Completed (Some ''rsync successful.'')),
          (4, SubTaskSettled 1 Completed (Some ''rsync successful.'')),
          (5, Resume)] demoRunning"

section \<open>The invariant of the scheduler\<close>

definition isActive :: "TransferSubTask \<Rightarrow> bool" where
  "isActive st \<longleftrightarrow> status st = Connecting \<or> status st = Transferring"

text \<open>
  The sub-tasks have distinct identifiers, and each one that is connecting or transferring
  is at a position of the set \<open>A\<close>.
\<close>

definition covered :: "TransferSubTask list \<Rightarrow> nat set \<Rightarrow> bool" where
  "covered sts A \<longleftrightarrow>
     distinct (map subTaskId sts) \<and> (\<forall>i < length sts. isActive (sts ! i) \<longrightarrow> i \<in> A)"

definition procSubTasks :: "Processing \<Rightarrow> TransferSubTask list" where
  "procSubTasks P =
     (case transferTasks (service P) (procTaskId P) of None \<Rightarrow> [] | Some task \<Rightarrow> subTasks task)"

text \<open>
  The task is in the map; its active sub-tasks are among the wrappers in flight; the counter
  of the scheduler counts the wrappers in flight and is at most the limit; only positions
  before the cursor have been launched, and none before the scheduler has started.
\<close>

definition schedInv :: "Processing \<Rightarrow> bool" where
  "schedInv P \<longleftrightarrow>
     transferTasks (service P) (procTaskId P) \<noteq> None
     \<and> covered (procSubTasks P) (pendingWrappers P)
     \<and> finite (pendingWrappers P)
     \<and> card (pendingWrappers P) = currentlyActiveSubTasks P
     \<and> currentlyActiveSubTasks P \<le> MAX_CONCURRENT_SUB_TASKS
     \<and> (\<forall>i \<in> pendingWrappers P. i < currentSubTaskIndex P)
     \<and> (phase P = AwaitSourceCredentials \<or> phase P = AwaitSourceConnect
          \<longrightarrow> pendingWrappers P = {})"

text \<open>The same file sent to seven targets: more sub-tasks than the concurrency limit.\<close>

definition widePayload :: InitiateTransferPayload where
  "widePayload =
     \<lparr>sourceConnectionId = 1, connectionIds = [2, 3, 4, 5, 6, 7, 8], sourceItems = [demoItem],
      remoteTargetPath = ''/backup'', transferMethod = Auto\<rparr>"

definition wideEvents :: "(timestamp \<times> event) list" where
  "wideEvents = [(1, SourceCredentials True), (2, SourceConnected True)]"

definition wideRunning :: Processing where
  "wideRunning = run wideEvents (submit demoUuid 0 widePayload demoOwner emptyService)"

definition wideCancelled :: Processing where
  "wideCancelled = step 3 (Cancel demoOwner) wideRunning"

section \<open>Executing one sub-task on the source host\<close>

text \<open>
  \<^verbatim>\<open>executeRemoteTransferOnSource\<close> talks to the two hosts and is suspended at each
  \<^verbatim>\<open>await\<close>. The model runs it against a record of what the outside does: what each probe
  finds, how the directory creation, the key upload and the transfer command end, and during
  which suspension (counted from 0) the owner cancels the task, if at all. The state of the
  run is the service, the flag of the signal, the number of suspensions so far, the local
  variable \<^verbatim>\<open>tempTargetKeyPathOnSource\<close>, and the list of what has been done to the source
  host. An exception is a result \<open>Inl\<close>. The text of the transfer command is not modelled;
  the other sub-tasks of the task make no step during the run.
\<close>

datatype auth_method = AuthPassword | AuthKey

text \<open>The fields of \<^verbatim>\<open>ConnectionWithTags\<close> that the executor reads (\<open>connName\<close> is \<^verbatim>\<open>name\<close>).\<close>

record TargetConnection =
  connName :: string
  host :: string
  port :: "int option"
  username :: string
  auth_method :: auth_method

record DecryptedConnectionCredentials =
  decryptedPassword :: "string option"
  decryptedPrivateKey :: "string option"
  decryptedPassphrase :: "string option"

datatype mkdir_result = DirectoryReady | MkdirFailed string

datatype upload_result = Uploaded | UploadFailed string

datatype command_end =
    StreamClosed "int option" string
  | ExecFailed string
  | CommandTimedOut
  | StreamFailed string

record Remote =
  sshpassOnSource :: "string option"
  rsyncOnSource :: "string option"
  scpOnSource :: "string option"
  rsyncOnTarget :: "string option"
  mkdirResult :: mkdir_result
  randomSuffix :: string
  uploadResult :: upload_result
  commandOutput :: "int option list"
  commandEnd :: command_end
  deleteFails :: bool
  cancelledAt :: "nat option"
  clock :: "nat \<Rightarrow> timestamp"

datatype effect =
    UploadKey string bool
  | DeleteKey string bool
  | RunTransfer transfer_method string "string option" bool

datatype exn = Abort string | Error string

record Exec =
  svc :: TransfersService
  aborted :: bool
  awaits :: nat
  tempTargetKeyPathOnSource :: "string option"
  effects :: "effect list"

type_synonym 'a exec = "Exec \<Rightarrow> (exn + 'a) \<times> Exec"

definition ret :: "'a \<Rightarrow> 'a exec" where
  "ret x = (\<lambda>e. (Inr x, e))"

definition throw :: "exn \<Rightarrow> 'a exec" where
  "throw x = (\<lambda>e. (Inl x, e))"

definition andThen :: "'a exec \<Rightarrow> ('a \<Rightarrow> 'b exec) \<Rightarrow> 'b exec" where
  "andThen m f = (\<lambda>e. case m e of (Inl x, e1) \<Rightarrow> (Inl x, e1) | (Inr v, e1) \<Rightarrow> f v e1)"

definition tryCatch :: "'a exec \<Rightarrow> (exn \<Rightarrow> 'a exec) \<Rightarrow> 'a exec" where
  "tryCatch m h = (\<lambda>e. case m e of (Inl x, e1) \<Rightarrow> h x e1 | (Inr v, e1) \<Rightarrow> (Inr v, e1))"

definition tryFinally :: "'a exec \<Rightarrow> unit exec \<Rightarrow> 'a exec" where
  "tryFinally m fin =
     (\<lambda>e. case m e of
             (r, e1) \<Rightarrow> (case fin e1 of (Inl x, e2) \<Rightarrow> (Inl x, e2) | (Inr u, e2) \<Rightarrow> (r, e2)))"

text \<open>A value that JavaScript takes as true: a string that is present and not empty.\<close>

definition truthy :: "string option \<Rightarrow> bool" where
  "truthy x = (case x of None \<Rightarrow> False | Some s \<Rightarrow> s \<noteq> [])"

definition text_of :: "string option \<Rightarrow> string" where
  "text_of x = (case x of None \<Rightarrow> [] | Some s \<Rightarrow> s)"

definition TEMP_KEY_PREFIX :: string where
  "TEMP_KEY_PREFIX = ''nexus_target_key_''"

definition escapeShellArg :: "string \<Rightarrow> string" where
  "escapeShellArg arg =
     [CHR 0x27] @ concat (map (\<lambda>c. if c = CHR 0x27 then [CHR 0x27, CHR 0x5C, CHR 0x27, CHR 0x27] else [c]) arg)
       @ [CHR 0x27]"

definition toolName :: "transfer_method \<Rightarrow> string" where
  "toolName m = (case m of Rsync \<Rightarrow> ''rsync'' | Scp \<Rightarrow> ''scp'' | Auto \<Rightarrow> ''auto'')"

text \<open>\<^verbatim>\<open>if (signal.aborted) throw new DOMException(msg, 'AbortError')\<close>\<close>

definition checkSignal :: "string \<Rightarrow> unit exec" where
  "checkSignal msg = (\<lambda>e. if aborted e then (Inl (Abort msg), e) else (Inr (), e))"

text \<open>
  One suspension. When the owner cancels during it, \<^verbatim>\<open>cancelTransferTask\<close> runs on the
  service and aborts the signal. The result tells whether that happened.
\<close>

definition suspend :: "Remote \<Rightarrow> task_id \<Rightarrow> bool exec" where
  "suspend R tid =
     (\<lambda>e. if cancelledAt R = Some (awaits e)
          then
            (case transferTasks (svc e) tid of
               None \<Rightarrow> (Inr False, e\<lparr>awaits := awaits e + 1\<rparr>)
             | Some task \<Rightarrow>
                 (case cancelTransferTask (clock R (awaits e)) tid (userId task) (svc e) of
                    (ok, s) \<Rightarrow>
                      (Inr ok, e\<lparr>svc := s, aborted := (aborted e \<or> ok), awaits := awaits e + 1\<rparr>)))
          else (Inr False, e\<lparr>awaits := awaits e + 1\<rparr>))"

definition report ::
  "Remote \<Rightarrow> task_id \<Rightarrow> sub_task_id \<Rightarrow> sub_status \<Rightarrow> int option \<Rightarrow> string option \<Rightarrow> unit exec" where
  "report R tid sid st prog msg =
     (\<lambda>e. (Inr (), e\<lparr>svc := updateSubTaskStatus (clock R (awaits e)) tid sid st prog msg (svc e)\<rparr>))"

definition perform_effect :: "effect \<Rightarrow> unit exec" where
  "perform_effect x = (\<lambda>e. (Inr (), e\<lparr>effects := effects e @ [x]\<rparr>))"

text \<open>A probe for a command, \<^verbatim>\<open>checkCommandOnSource\<close> or \<^verbatim>\<open>checkCommandOnTargetServer\<close>, and the check of the signal after it.\<close>

definition probe :: "Remote \<Rightarrow> task_id \<Rightarrow> string option \<Rightarrow> string option exec" where
  "probe R tid found =
     andThen (suspend R tid) (\<lambda>_.
     andThen (checkSignal ''Transfer cancelled by user.'') (\<lambda>_.
     ret found))"

text \<open>The choice of the tool by the preference of the request.\<close>

definition chooseCommand ::
  "Remote \<Rightarrow> task_id \<Rightarrow> transfer_method \<Rightarrow> string \<Rightarrow> string option \<Rightarrow> string option
     \<Rightarrow> (string \<times> transfer_method) exec" where
  "chooseCommand R tid preference itemName rsyncPathOnSource scpPathOnSource =
     (case preference of
        Auto \<Rightarrow>
          andThen
            (if truthy rsyncPathOnSource
             then andThen (probe R tid (rsyncOnTarget R)) (\<lambda>rsyncPathOnTarget.
                    ret (truthy rsyncPathOnTarget))
             else ret False)
            (\<lambda>rsyncChosen.
               if rsyncChosen then ret (text_of rsyncPathOnSource, Rsync)
               else if truthy scpPathOnSource then ret (text_of scpPathOnSource, Scp)
               else throw (Error (''Neither Rsync nor SCP are available on source for ''
                                   @ itemName @ '' (auto mode).'')))
      | Rsync \<Rightarrow>
          if \<not> truthy rsyncPathOnSource
          then throw (Error (''Rsync preferred but not available on source for '' @ itemName @ ''.''))
          else
            andThen (probe R tid (rsyncOnTarget R)) (\<lambda>rsyncPathOnTarget.
              if \<not> truthy rsyncPathOnTarget
              then throw (Error (''Rsync preferred, but not available on target for ''
                                  @ itemName @ ''.''))
              else ret (text_of rsyncPathOnSource, Rsync))
      | Scp \<Rightarrow>
          if \<not> truthy scpPathOnSource
          then throw (Error (''SCP preferred but not available on source for '' @ itemName @ ''.''))
          else ret (text_of scpPathOnSource, Scp))"

text \<open>
  The creation of the target directory with its own \<^verbatim>\<open>try\<close> and \<^verbatim>\<open>catch\<close>. An abort
  during the suspension rejects the promise through its listener.
\<close>

definition ensureTargetDirectory ::
  "Remote \<Rightarrow> task_id \<Rightarrow> sub_task_id \<Rightarrow> string \<Rightarrow> TargetConnection \<Rightarrow> unit exec" where
  "ensureTargetDirectory R tid sid remotePath target =
     tryCatch
       (andThen (checkSignal ''Transfer cancelled by user (before mkdir).'') (\<lambda>_.
        andThen (suspend R tid) (\<lambda>cancelled.
        andThen (if cancelled then throw (Abort ''Mkdir operation cancelled by user.'')
                 else (case mkdirResult R of
                         DirectoryReady \<Rightarrow> ret ()
                       | MkdirFailed m \<Rightarrow> throw (Error m))) (\<lambda>_.
        andThen (checkSignal ''Transfer cancelled by user (after mkdir attempt).'') (\<lambda>_.
        report R tid sid Transferring (Some 8)
          (Some ''Target directory ensured. Preparing transfer command.''))))))
       (\<lambda>mkdirError.
          case mkdirError of
            Abort m \<Rightarrow>
              andThen (report R tid sid Cancelled None (Some (''Directory creation cancelled: '' @ m)))
                (\<lambda>_. throw (Abort m))
          | Error m \<Rightarrow>
              andThen (report R tid sid Failed None (Some (''Failed to create target directory: '' @ m)))
                (\<lambda>_. throw (Error (''Failed to create target directory '' @ remotePath @ '': '' @ m))))"

text \<open>
  The credentials for the target. For a key the path is stored in
  \<^verbatim>\<open>tempTargetKeyPathOnSource\<close> before the upload starts. The result is the identity file,
  if any, and whether the command is run through \<^verbatim>\<open>sshpass\<close>.
\<close>

definition brokerCredentials ::
  "Remote \<Rightarrow> task_id \<Rightarrow> TargetConnection \<Rightarrow> DecryptedConnectionCredentials \<Rightarrow> string
     \<Rightarrow> string option \<Rightarrow> (string option \<times> bool) exec" where
  "brokerCredentials R tid target creds itemName sshpassPath =
     (if auth_method target = AuthKey \<and> truthy (decryptedPrivateKey creds)
      then
        (let keyPath = ''/tmp/'' @ TEMP_KEY_PREFIX @ randomSuffix R
         in andThen (\<lambda>e. (Inr (), e\<lparr>tempTargetKeyPathOnSource := Some keyPath\<rparr>)) (\<lambda>_.
            andThen (perform_effect (UploadKey keyPath (uploadResult R = Uploaded))) (\<lambda>_.
            andThen (suspend R tid) (\<lambda>_.
            andThen (case uploadResult R of
                       Uploaded \<Rightarrow> ret ()
                     | UploadFailed m \<Rightarrow> throw (Error m)) (\<lambda>_.
            andThen (checkSignal ''Transfer cancelled by user.'') (\<lambda>_.
            if truthy (decryptedPassphrase creds) \<and> \<not> truthy sshpassPath
            then throw (Error (''Target key has passphrase, but sshpass is not available on source for ''
                                @ itemName @ ''.''))
            else ret (Some keyPath, truthy (decryptedPassphrase creds) \<and> truthy sshpassPath)))))))
      else if auth_method target = AuthPassword \<and> truthy (decryptedPassword creds)
      then
        (if \<not> truthy sshpassPath
         then throw (Error (''Target uses password auth, but sshpass is not available on source for ''
                             @ itemName @ ''.''))
         else ret (None, True))
      else if auth_method target = AuthKey \<and> \<not> truthy (decryptedPrivateKey creds)
      then throw (Error (''Target connection '' @ connName target
                          @ '' is key-based but no private key found.''))
      else ret (None, False))"

text \<open>The handler of the \<^verbatim>\<open>data\<close> event for one chunk of output.\<close>

definition onData ::
  "Remote \<Rightarrow> task_id \<Rightarrow> sub_task_id \<Rightarrow> transfer_method \<Rightarrow> int option \<Rightarrow> unit exec" where
  "onData R tid sid tool chunk =
     (\<lambda>e. if aborted e then (Inr (), e)
          else if tool = Rsync
          then (case chunk of
                  None \<Rightarrow> (Inr (), e)
                | Some p \<Rightarrow> report R tid sid Transferring (Some p) None e)
          else report R tid sid Transferring (Some 50) (Some ''SCP in progress...'') e)"

fun onDataAll ::
  "Remote \<Rightarrow> task_id \<Rightarrow> sub_task_id \<Rightarrow> transfer_method \<Rightarrow> int option list \<Rightarrow> unit exec" where
  "onDataAll R tid sid tool [] = ret ()"
| "onDataAll R tid sid tool (chunk # chunks) =
     andThen (onData R tid sid tool chunk) (\<lambda>_. onDataAll R tid sid tool chunks)"

text \<open>
  The promise around the transfer command: the output that arrives, and then the abort, the
  failure of \<^verbatim>\<open>exec\<close>, the timeout, the stream error or the exit code.
\<close>

definition runTransferCommand ::
  "Remote \<Rightarrow> task_id \<Rightarrow> sub_task_id \<Rightarrow> transfer_method \<Rightarrow> string \<Rightarrow> string option \<Rightarrow> bool
     \<Rightarrow> string \<Rightarrow> unit exec" where
  "runTransferCommand R tid sid tool executable identity usePass itemName =
     andThen (perform_effect (RunTransfer tool executable identity usePass)) (\<lambda>_.
     andThen (case commandEnd R of
                ExecFailed m \<Rightarrow> ret ()
              | _ \<Rightarrow> onDataAll R tid sid tool (commandOutput R)) (\<lambda>_.
     andThen (suspend R tid) (\<lambda>cancelled.
       if cancelled then throw (Abort ''Command cancelled by user.'')
       else
         (case commandEnd R of
            ExecFailed m \<Rightarrow> throw (Error (''Failed to execute command: '' @ m))
          | CommandTimedOut \<Rightarrow>
              throw (Error (toolName tool @ '' command timed out for '' @ itemName @ ''.''))
          | StreamFailed m \<Rightarrow> throw (Error m)
          | StreamClosed code stderr \<Rightarrow>
              if code = Some 0
              then report R tid sid Completed (Some 100) (Some (toolName tool @ '' successful.''))
              else throw (Error (toolName tool @ '' failed. Code: ''
                                  @ (case code of None \<Rightarrow> ''null'' | Some c \<Rightarrow> show_int c)
                                  @ ''. Stderr: '' @ stderr))))))"

text \<open>The \<^verbatim>\<open>try\<close> block.\<close>

definition executeBody ::
  "Remote \<Rightarrow> task_id \<Rightarrow> sub_task_id \<Rightarrow> SourceItem \<Rightarrow> TargetConnection
     \<Rightarrow> DecryptedConnectionCredentials \<Rightarrow> string \<Rightarrow> transfer_method \<Rightarrow> unit exec" where
  "executeBody R tid sid sourceItem target creds remotePath preference =
     andThen (checkSignal ''Transfer cancelled by user.'') (\<lambda>_.
     andThen (probe R tid (sshpassOnSource R)) (\<lambda>sshpassPath.
     andThen (probe R tid (rsyncOnSource R)) (\<lambda>rsyncPathOnSource.
     andThen (probe R tid (scpOnSource R)) (\<lambda>scpPathOnSource.
     andThen (chooseCommand R tid preference (name sourceItem) rsyncPathOnSource scpPathOnSource)
       (\<lambda>(executable, tool).
     andThen (checkSignal ''Transfer cancelled by user.'') (\<lambda>_.
     andThen (report R tid sid Transferring (Some 5) (Some (''Using '' @ toolName tool @ ''.''))) (\<lambda>_.
     andThen (\<lambda>e. (Inr (), e\<lparr>svc := setTransferMethodUsed tid sid tool (svc e)\<rparr>)) (\<lambda>_.
     andThen (report R tid sid Transferring (Some 6)
                (Some (''Ensuring target directory '' @ escapeShellArg remotePath @ '' exists on ''
                        @ host target @ ''.''))) (\<lambda>_.
     andThen (ensureTargetDirectory R tid sid remotePath target) (\<lambda>_.
     andThen (brokerCredentials R tid target creds (name sourceItem) sshpassPath)
       (\<lambda>(identity, usePass).
     andThen (checkSignal ''Transfer cancelled by user.'') (\<lambda>_.
     andThen (report R tid sid Transferring (Some 10) (Some (''Executing: '' @ toolName tool))) (\<lambda>_.
     runTransferCommand R tid sid tool executable identity usePass (name sourceItem))))))))))))))"

text \<open>The \<^verbatim>\<open>catch\<close> block: it sets the status and throws the exception again.\<close>

definition executeCatch ::
  "Remote \<Rightarrow> task_id \<Rightarrow> sub_task_id \<Rightarrow> SourceItem \<Rightarrow> exn \<Rightarrow> unit exec" where
  "executeCatch R tid sid sourceItem err =
     andThen
       (case err of
          Abort m \<Rightarrow>
            (\<lambda>e. case transferTasks (svc e) tid of
                    None \<Rightarrow> (Inr (), e)
                  | Some task \<Rightarrow>
                      (case findSubTask sid (subTasks task) of
                         None \<Rightarrow> (Inr (), e)
                       | Some i \<Rightarrow>
                           if status (subTasks task ! i) \<noteq> Cancelled
                           then report R tid sid Cancelled None (Some m) e
                           else (Inr (), e)))
        | Error m \<Rightarrow>
            report R tid sid Failed None
              (Some (if m = [] then ''Remote transfer execution failed for '' @ name sourceItem @ ''.''
                     else m)))
       (\<lambda>_. throw err)"

text \<open>
  The \<^verbatim>\<open>finally\<close> block: the deletion of the key file, whose failure is caught and logged.
\<close>

definition executeFinally :: "Remote \<Rightarrow> task_id \<Rightarrow> unit exec" where
  "executeFinally R tid =
     (\<lambda>e. if truthy (tempTargetKeyPathOnSource e)
          then andThen (perform_effect (DeleteKey (text_of (tempTargetKeyPathOnSource e))
                                          (\<not> deleteFails R)))
                 (\<lambda>_. andThen (suspend R tid) (\<lambda>_. ret ())) e
          else (Inr (), e))"

definition executeRemoteTransferOnSource ::
  "Remote \<Rightarrow> task_id \<Rightarrow> sub_task_id \<Rightarrow> SourceItem \<Rightarrow> TargetConnection
     \<Rightarrow> DecryptedConnectionCredentials \<Rightarrow> string \<Rightarrow> transfer_method \<Rightarrow> unit exec" where
  "executeRemoteTransferOnSource R tid sid sourceItem target creds remotePath preference =
     andThen (checkSignal ''Transfer cancelled by user.'') (\<lambda>_.
     andThen (report R tid sid Transferring (Some 0)
                (Some (''Initializing remote transfer for '' @ name sourceItem))) (\<lambda>_.
     tryFinally
       (tryCatch (executeBody R tid sid sourceItem target creds remotePath preference)
          (executeCatch R tid sid sourceItem))
       (executeFinally R tid)))"

text \<open>The call of the executor by the wrapper: a fresh run on the service, the signal not aborted.\<close>

definition startExec :: "TransfersService \<Rightarrow> Exec" where
  "startExec s = \<lparr>svc = s, aborted = False, awaits = 0, tempTargetKeyPathOnSource = None, effects = []\<rparr>"

text \<open>The path of the key file in a run, and what holds of the key file all along a run.\<close>

definition keyPathOf :: "Remote \<Rightarrow> string" where
  "keyPathOf R = ''/tmp/'' @ TEMP_KEY_PREFIX @ randomSuffix R"

definition keyTracked :: "Remote \<Rightarrow> Exec \<Rightarrow> bool" where
  "keyTracked R e \<longleftrightarrow>
     (tempTargetKeyPathOnSource e = None \<or> tempTargetKeyPathOnSource e = Some (keyPathOf R))
     \<and> (\<forall>p ok. UploadKey p ok \<in> set (effects e)
           \<longrightarrow> p = keyPathOf R \<and> tempTargetKeyPathOnSource e = Some (keyPathOf R))"

definition keeps :: "(Exec \<Rightarrow> bool) \<Rightarrow> 'a exec \<Rightarrow> bool" where
  "keeps I m \<longleftrightarrow> (\<forall>e. I e \<longrightarrow> I (snd (m e)))"

text \<open>A key file on a normal source host, a password-less key for the target.\<close>

definition demoTarget :: TargetConnection where
  "demoTarget = \<lparr>connName = ''target-2'', host = ''10.0.0.2'', port = Some 22, username = ''deploy'',
                  auth_method = AuthKey\<rparr>"

definition demoCredentials :: DecryptedConnectionCredentials where
  "demoCredentials = \<lparr>decryptedPassword = None, decryptedPrivateKey = Some ''PRIVATE KEY'',
                       decryptedPassphrase = None\<rparr>"

definition demoRemote :: Remote where
  "demoRemote =
     \<lparr>sshpassOnSource = None, rsyncOnSource = Some ''/usr/bin/rsync'',
      scpOnSource = Some ''/usr/bin/scp'', rsyncOnTarget = Some ''/usr/bin/rsync'',
      mkdirResult = DirectoryReady, randomSuffix = ''a1b2c3d4e5f6'', uploadResult = Uploaded,
      commandOutput = [Some 40, None, Some 100], commandEnd = StreamClosed (Some 0) [],
      deleteFails = True, cancelledAt = None, clock = (\<lambda>k. 10 + k)\<rparr>"

definition demoExecution :: "Remote \<Rightarrow> (exn + unit) \<times> Exec" where
  "demoExecution R =
     executeRemoteTransferOnSource R (demoUuid 0) (demoUuid 1) demoItem demoTarget demoCredentials
       ''/backup'' Auto (startExec (service demoRunning))"

section \<open>Properties\<close>

subsection \<open>What the operations do to the list of sub-tasks\<close>

lemma rollupTask_subTasks [simp]: "subTasks (rollupTask now task) = subTasks task"
  by (simp add: rollupTask_def Let_def)

lemma setOverallStatus_subTasks [simp]: "subTasks (setOverallStatus now st task) = subTasks task"
  by (simp add: setOverallStatus_def Let_def)

lemma findSubTask_Some:
  "findSubTask sid xs = Some i \<Longrightarrow> i < length xs \<and> subTaskId (xs ! i) = sid"
proof (induction xs arbitrary: i)
  case Nil
  then show ?case by simp
next
  case (Cons x xs)
  then show ?case by (cases "subTaskId x = sid") auto
qed

lemma findSubTask_distinct:
  "distinct (map subTaskId xs) \<Longrightarrow> i < length xs \<Longrightarrow> findSubTask (subTaskId (xs ! i)) xs = Some i"
proof (induction xs arbitrary: i)
  case Nil
  then show ?case by simp
next
  case (Cons x xs)
  show ?case
  proof (cases i)
    case 0
    then show ?thesis by simp
  next
    case (Suc k)
    with Cons.prems have "k < length xs" and "subTaskId (xs ! k) \<noteq> subTaskId x"
      by (auto simp: image_iff) (metis nth_mem)
    with Cons Suc show ?thesis by simp
  qed
qed

lemma updateSubTaskInTask_subTasks:
  "subTasks (updateSubTaskInTask now sid new prog msg task) =
     (case findSubTask sid (subTasks task) of
        None \<Rightarrow> subTasks task
      | Some i \<Rightarrow>
          if (status (subTasks task ! i) = Completed \<or> status (subTasks task ! i) = Failed)
             \<and> new \<noteq> Completed \<and> new \<noteq> Failed
          then subTasks task
          else (subTasks task)[i := writeSubTask now new prog msg (subTasks task ! i)])"
  by (simp add: updateSubTaskInTask_def Let_def split: option.splits)

lemma updateSubTaskInTask_length [simp]:
  "length (subTasks (updateSubTaskInTask now sid new prog msg task)) = length (subTasks task)"
  by (simp add: updateSubTaskInTask_subTasks split: option.splits)

lemma writeSubTask_fields [simp]:
  "subTaskId (writeSubTask now new prog msg st) = subTaskId st"
  "status (writeSubTask now new prog msg st) = new"
  "endTime (writeSubTask now new prog msg st) =
     (if (new = Completed \<or> new = Failed) \<and> endTime st = None then Some now else endTime st)"
  by (simp_all add: writeSubTask_def)

lemma updateSubTaskInTask_ids [simp]:
  "map subTaskId (subTasks (updateSubTaskInTask now sid new prog msg task)) =
     map subTaskId (subTasks task)"
  by (auto simp: updateSubTaskInTask_subTasks map_update list_update_same_conv
           dest: findSubTask_Some split: option.splits)

text \<open>Each position after an update: only the first sub-task with the identifier can change.\<close>

lemma updateSubTaskInTask_nth:
  assumes "j < length (subTasks task)"
  shows "subTasks (updateSubTaskInTask now sid new prog msg task) ! j =
           (if findSubTask sid (subTasks task) = Some j
               \<and> \<not> ((status (subTasks task ! j) = Completed \<or> status (subTasks task ! j) = Failed)
                      \<and> new \<noteq> Completed \<and> new \<noteq> Failed)
            then writeSubTask now new prog msg (subTasks task ! j)
            else subTasks task ! j)"
  using assms
  by (auto simp: updateSubTaskInTask_subTasks nth_list_update dest: findSubTask_Some
           split: option.splits)

lemma cancelSubTaskAt_length [simp]:
  "length (subTasks (cancelSubTaskAt now task i)) = length (subTasks task)"
  by (simp add: cancelSubTaskAt_def Let_def)

lemma foldl_preserves:
  assumes "\<And>x i. Q x \<Longrightarrow> Q (f x i)" and "Q x"
  shows "Q (foldl f x is)"
  using assms(2) by (induction "is" arbitrary: x) (simp_all add: assms(1))

text \<open>
  A property of a task that the status update and the direct status write keep is kept by
  the cancellation.
\<close>

lemma cancelTask_preserves:
  assumes upd: "\<And>now sid prog msg task. Q task \<Longrightarrow> Q (updateSubTaskInTask now sid Cancelled prog msg task)"
    and ovr: "\<And>now st task. Q task \<Longrightarrow> Q (setOverallStatus now st task)"
    and "Q task"
  shows "Q (cancelTask now task)"
  unfolding cancelTask_def Let_def
  by (rule foldl_preserves) (simp_all add: cancelSubTaskAt_def Let_def upd ovr assms(3))

text \<open>Operations keep every task in the map, and keep what each of their steps keeps.\<close>

lemma perform_preserves:
  assumes upd: "\<And>now sid st prog msg task. Q task \<Longrightarrow> Q (updateSubTaskInTask now sid st prog msg task)"
    and ovr: "\<And>now st task. Q task \<Longrightarrow> Q (setOverallStatus now st task)"
    and rol: "\<And>now task. Q task \<Longrightarrow> Q (rollupTask now task)"
    and met: "\<And>task i m. Q task \<Longrightarrow> i < length (subTasks task) \<Longrightarrow>
                Q (task\<lparr>subTasks := (subTasks task)[i := (subTasks task ! i)\<lparr>transferMethodUsed := Some m\<rparr>]\<rparr>)"
    and task: "transferTasks s tid = Some task" "Q task"
  shows "\<exists>task'. transferTasks (perform now op s) tid = Some task' \<and> Q task'"
proof (cases op)
  case (UpdateSubTaskStatus tid' sid st prog msg)
  with task upd show ?thesis
    by (auto simp: updateSubTaskStatus_def split: option.splits)
next
  case (UpdateOverallTaskStatus tid' st)
  with task ovr show ?thesis
    by (auto simp: updateOverallTaskStatus_def split: option.splits)
next
  case (UpdateOverallTaskStatusBasedOnSubTasks tid')
  with task rol show ?thesis
    by (auto simp: updateOverallTaskStatusBasedOnSubTasks_def split: option.splits)
next
  case (FinalizeOverallTaskStatus tid')
  with task rol show ?thesis
    by (auto simp: finalizeOverallTaskStatus_def updateOverallTaskStatusBasedOnSubTasks_def
             split: option.splits)
next
  case (CancelTransferTask tid' uid)
  with task cancelTask_preserves [of Q, OF upd ovr] show ?thesis
    by (auto simp: cancelTransferTask_def split: option.splits)
next
  case (SetTransferMethodUsed tid' sid m)
  with task met show ?thesis
    by (auto simp: setTransferMethodUsed_def dest: findSubTask_Some split: option.splits)
qed

lemma performAll_preserves:
  assumes upd: "\<And>now sid st prog msg task. Q task \<Longrightarrow> Q (updateSubTaskInTask now sid st prog msg task)"
    and ovr: "\<And>now st task. Q task \<Longrightarrow> Q (setOverallStatus now st task)"
    and rol: "\<And>now task. Q task \<Longrightarrow> Q (rollupTask now task)"
    and met: "\<And>task i m. Q task \<Longrightarrow> i < length (subTasks task) \<Longrightarrow>
                Q (task\<lparr>subTasks := (subTasks task)[i := (subTasks task ! i)\<lparr>transferMethodUsed := Some m\<rparr>]\<rparr>)"
    and task: "transferTasks s tid = Some task" "Q task"
  shows "\<exists>task'. transferTasks (performAll ops s) tid = Some task' \<and> Q task'"
  using task
proof (induction ops arbitrary: s task)
  case Nil
  then show ?case by simp
next
  case (Cons x ops)
  obtain now op where x: "x = (now, op)" by (cases x)
  from perform_preserves [of Q, OF upd ovr rol met Cons.prems]
  obtain task1 where "transferTasks (perform now op s) tid = Some task1" "Q task1"
    by blast
  from Cons.IH [OF this] x show ?case by simp
qed

subsection \<open>The task that initiateNewTransfer creates\<close>

lemma pushSourceItems_eq:
  "pushSourceItems uuid now cid items acc =
     acc @ map (\<lambda>(k, item).
                  \<lparr>subTaskId = uuid (Suc (length acc + k)), connectionId = cid,
                   sourceItemName = name item, status = Queued, progress = None, message = None,
                   transferMethodUsed = None, startTime = Some now, endTime = None\<rparr>)
               (enumerate 0 items)"
proof (induction items arbitrary: acc)
  case Nil
  then show ?case by simp
next
  case (Cons item items)
  show ?case
    by (simp add: Cons.IH enumerate_Suc_eq [of 0] map_prod_def comp_def split_def del: enumerate_Suc_eq)
qed

lemma pushSourceItems_ids:
  "map subTaskId acc = map (\<lambda>k. uuid (Suc k)) [0..<length acc] \<Longrightarrow>
     map subTaskId (pushSourceItems uuid now cid items acc) =
       map (\<lambda>k. uuid (Suc k)) [0..<length (pushSourceItems uuid now cid items acc)]"
  by (induction items arbitrary: acc) simp_all

lemma pushConnections_ids:
  "map subTaskId acc = map (\<lambda>k. uuid (Suc k)) [0..<length acc] \<Longrightarrow>
     map subTaskId (pushConnections uuid now cids items acc) =
       map (\<lambda>k. uuid (Suc k)) [0..<length (pushConnections uuid now cids items acc)]"
  by (induction cids arbitrary: acc) (simp_all add: pushSourceItems_ids)

lemma pushSourceItems_pairs:
  "map (\<lambda>st. (connectionId st, sourceItemName st)) (pushSourceItems uuid now cid items acc) =
     map (\<lambda>st. (connectionId st, sourceItemName st)) acc @ map (Pair cid) (map name items)"
  by (induction items arbitrary: acc) simp_all

lemma pushConnections_pairs:
  "map (\<lambda>st. (connectionId st, sourceItemName st)) (pushConnections uuid now cids items acc) =
     map (\<lambda>st. (connectionId st, sourceItemName st)) acc @ List.product cids (map name items)"
  by (induction cids arbitrary: acc) (simp_all add: pushSourceItems_pairs)

lemma pushSourceItems_fresh:
  "\<forall>st \<in> set acc. status st = Queued \<and> endTime st = None \<Longrightarrow>
     \<forall>st \<in> set (pushSourceItems uuid now cid items acc). status st = Queued \<and> endTime st = None"
  by (auto simp: pushSourceItems_eq)

lemma pushConnections_fresh:
  "\<forall>st \<in> set acc. status st = Queued \<and> endTime st = None \<Longrightarrow>
     \<forall>st \<in> set (pushConnections uuid now cids items acc). status st = Queued \<and> endTime st = None"
proof (induction cids arbitrary: acc)
  case Nil
  then show ?case by simp
next
  case (Cons cid cids)
  from Cons.IH [OF pushSourceItems_fresh [OF Cons.prems]] show ?case by simp
qed

lemma newTask_subTasks:
  "map (\<lambda>st. (connectionId st, sourceItemName st)) (subTasks (newTask uuid now p uid)) =
     List.product (connectionIds p) (map name (sourceItems p))"
  "length (subTasks (newTask uuid now p uid)) = length (connectionIds p) * length (sourceItems p)"
  "\<forall>st \<in> set (subTasks (newTask uuid now p uid)). status st = Queued \<and> endTime st = None"
  "taskId (newTask uuid now p uid) = uuid 0"
proof -
  show pairs: "map (\<lambda>st. (connectionId st, sourceItemName st)) (subTasks (newTask uuid now p uid)) =
     List.product (connectionIds p) (map name (sourceItems p))"
    by (simp add: newTask_def pushConnections_pairs)
  have "length (subTasks (newTask uuid now p uid)) =
          length (map (\<lambda>st. (connectionId st, sourceItemName st)) (subTasks (newTask uuid now p uid)))"
    by simp
  also have "\<dots> = length (connectionIds p) * length (sourceItems p)"
    by (simp only: pairs length_product length_map)
  finally show "length (subTasks (newTask uuid now p uid)) = length (connectionIds p) * length (sourceItems p)" .
  show "\<forall>st \<in> set (subTasks (newTask uuid now p uid)). status st = Queued \<and> endTime st = None"
    using pushConnections_fresh [of "[]"] by (simp add: newTask_def)
  show "taskId (newTask uuid now p uid) = uuid 0"
    by (simp add: newTask_def)
qed

lemma newTask_distinct:
  "inj uuid \<Longrightarrow> distinct (map subTaskId (subTasks (newTask uuid now p uid)))"
proof -
  assume "inj uuid"
  then have "inj (\<lambda>k. uuid (Suc k))"
    by (auto simp: inj_def)
  then have "distinct (map (\<lambda>k. uuid (Suc k)) [0..<n])" for n
    by (simp add: distinct_map inj_on_def inj_def)
  moreover have "map subTaskId (subTasks (newTask uuid now p uid)) =
      map (\<lambda>k. uuid (Suc k)) [0..<length (subTasks (newTask uuid now p uid))]"
    using pushConnections_ids [of "[]" uuid] by (simp add: newTask_def)
  ultimately show ?thesis by simp
qed

text \<open>What initiateNewTransfer returns and stores: the new task, set to in-progress by the start of its processing.\<close>

lemma initiateNewTransfer_eq:
  "initiateNewTransfer uuid now p uid s =
     (setOverallStatus now TaskInProgress (newTask uuid now p uid),
      s\<lparr>taskAbortControllers := (taskAbortControllers s)(uuid 0 \<mapsto> False),
        transferTasks := (transferTasks s)
          (uuid 0 \<mapsto> setOverallStatus now TaskInProgress (newTask uuid now p uid))\<rparr>)"
  by (simp add: initiateNewTransfer_def Let_def processTransferTask_enter_def
        updateOverallTaskStatus_def newTask_subTasks(4))

text \<open>
  C9: a request with \<open>t\<close> targets and \<open>i\<close> source items gives a task with \<open>t * i\<close>
  sub-tasks, one for each pair of a target and an item in the order of the request, and the
  task keeps that number of sub-tasks under every sequence of operations of the service.
\<close>

theorem sub_task_cardinality:
  "(case initiateNewTransfer uuid t0 p uid s of
      (task, s1) \<Rightarrow>
        length (subTasks task) = length (connectionIds p) * length (sourceItems p)
        \<and> map (\<lambda>st. (connectionId st, sourceItemName st)) (subTasks task) =
            List.product (connectionIds p) (map name (sourceItems p))
        \<and> transferTasks s1 (taskId task) = Some task
        \<and> (\<exists>task'. transferTasks (performAll ops s1) (taskId task) = Some task'
              \<and> length (subTasks task') = length (connectionIds p) * length (sourceItems p)))"
proof -
  let ?n = "length (connectionIds p) * length (sourceItems p)"
  let ?task = "setOverallStatus t0 TaskInProgress (newTask uuid t0 p uid)"
  let ?s1 = "snd (initiateNewTransfer uuid t0 p uid s)"
  have stored: "transferTasks ?s1 (uuid 0) = Some ?task"
    by (simp add: initiateNewTransfer_eq)
  have len: "length (subTasks ?task) = ?n"
    by (simp add: newTask_subTasks(2))
  have "\<exists>task'. transferTasks (performAll ops ?s1) (uuid 0) = Some task'
          \<and> length (subTasks task') = ?n"
    by (rule performAll_preserves [where Q = "\<lambda>t. length (subTasks t) = ?n", OF _ _ _ _ stored len])
       simp_all
  moreover have "taskId ?task = uuid 0"
    by (simp add: setOverallStatus_def newTask_subTasks(4))
  ultimately show ?thesis
    using stored len by (simp add: initiateNewTransfer_eq newTask_subTasks(1))
qed

subsection \<open>The rollup\<close>

lemma foldl_count_sub_task:
  "foldl count_sub_task c sts =
     c\<lparr>completedCount := completedCount c + count_status Completed (map status sts),
       failedCount := failedCount c + count_status Failed (map status sts),
       inProgressCount := inProgressCount c + count_status Connecting (map status sts)
                            + count_status Transferring (map status sts),
       queuedCount := queuedCount c + count_status Queued (map status sts),
       totalProgress := totalProgress (foldl count_sub_task c sts)\<rparr>"
proof (induction sts arbitrary: c)
  case Nil
  then show ?case by (simp add: count_status_def)
next
  case (Cons st sts)
  show ?case
    by (subst foldl_Cons, subst Cons.IH)
       (cases "status st"; simp add: count_sub_task_def count_status_def)
qed

lemma counts_of_sub_tasks:
  "completedCount (count_sub_tasks sts) = count_status Completed (map status sts)"
  "failedCount (count_sub_tasks sts) = count_status Failed (map status sts)"
  "inProgressCount (count_sub_tasks sts) =
     count_status Connecting (map status sts) + count_status Transferring (map status sts)"
  "queuedCount (count_sub_tasks sts) = count_status Queued (map status sts)"
  unfolding count_sub_tasks_def
  by (subst foldl_count_sub_task, simp add: no_counts_def)+

text \<open>The inner condition of the last branch never holds there: the branch before the queued one has taken every list with a queued and a completed sub-task.\<close>

lemma newOverallStatus_fallback:
  "newOverallStatus n c =
     (if failedCount c = n then TaskFailed
      else if completedCount c = n then TaskCompleted
      else if failedCount c > 0 \<and> completedCount c + failedCount c = n then TaskPartiallyCompleted
      else if inProgressCount c > 0 \<or> (queuedCount c > 0 \<and> (failedCount c > 0 \<or> completedCount c > 0))
        then TaskInProgress
      else if queuedCount c = n then TaskQueued
      else TaskInProgress)"
  by (auto simp: newOverallStatus_def)

lemma rollupTask_status:
  "subTasks task \<noteq> [] \<Longrightarrow>
     taskStatus (rollupTask now task) = rollup_in_progress_otherwise (map status (subTasks task))"
  by (simp add: rollupTask_def Let_def newOverallStatus_fallback counts_of_sub_tasks
        rollup_in_progress_otherwise_def)

text \<open>
  C3, as the code has it: for a task with at least one sub-task, the status that
  \<^verbatim>\<open>updateOverallTaskStatusBasedOnSubTasks\<close> stores is failed when all sub-tasks failed,
  completed when all completed, partially-completed when some failed and all are completed or
  failed, in-progress when a sub-task is connecting or transferring or when queued sub-tasks
  stand beside failed or completed ones, queued when all are queued, and in-progress in
  every remaining case.
\<close>

theorem rollup_by_rules:
  "transferTasks s tid = Some task \<Longrightarrow> subTasks task \<noteq> [] \<Longrightarrow>
     statusOf (updateOverallTaskStatusBasedOnSubTasks now tid s) tid =
       Some (rollup_in_progress_otherwise (subStatuses s tid))"
  by (simp add: updateOverallTaskStatusBasedOnSubTasks_def statusOf_def subStatuses_def
        rollupTask_status)

theorem rollup_by_rules_witness:
  "subStatuses (service demoRunning) (demoUuid 0) = [Connecting, Connecting]
   \<and> statusOf (updateOverallTaskStatusBasedOnSubTasks 3 (demoUuid 0) (service demoRunning)) (demoUuid 0)
       = Some TaskInProgress"
proof -
  let ?task = "the (transferTasks (service demoRunning) (demoUuid 0))"
  have task: "transferTasks (service demoRunning) (demoUuid 0) = Some ?task"
    by code_simp
  have ne: "subTasks ?task \<noteq> []"
    by code_simp
  have sub: "subStatuses (service demoRunning) (demoUuid 0) = [Connecting, Connecting]"
    by code_simp
  have "rollup_in_progress_otherwise [Connecting, Connecting] = TaskInProgress"
    by code_simp
  with rollup_by_rules [OF task ne, of 3] sub show ?thesis by simp
qed

text \<open>
  C3 as it is stated fails where the last rule applies: with both sub-tasks cancelled the
  stored status is in-progress, and the rules of the specification give partially-completed.
\<close>

theorem rollup_all_cancelled_counterexample:
  "subStatuses (service (step 3 (Cancel demoOwner) demoRunning)) (demoUuid 0) = [Cancelled, Cancelled]
   \<and> statusOf (updateOverallTaskStatusBasedOnSubTasks 4 (demoUuid 0)
                 (service (step 3 (Cancel demoOwner) demoRunning))) (demoUuid 0)
       = Some TaskInProgress
   \<and> spec_rollup [Cancelled, Cancelled] = TaskPartiallyCompleted"
  by code_simp

subsection \<open>End timestamps\<close>

lemma updateSubTaskStatus_tasks:
  "transferTasks (updateSubTaskStatus now tid sid new prog msg s) tid' =
     (if tid' = tid then map_option (updateSubTaskInTask now sid new prog msg) (transferTasks s tid)
      else transferTasks s tid')"
  by (simp add: updateSubTaskStatus_def split: option.splits)

lemma updateSubTaskInTask_endTime:
  assumes "j < length (subTasks task)"
    and "endTime (subTasks (updateSubTaskInTask now sid new prog msg task) ! j)
           \<noteq> endTime (subTasks task ! j)"
  shows "(new = Completed \<or> new = Failed) \<and> endTime (subTasks task ! j) = None
         \<and> endTime (subTasks (updateSubTaskInTask now sid new prog msg task) ! j) = Some now"
  using assms by (auto simp: updateSubTaskInTask_nth split: if_splits)

lemma ended_only_when_final_update:
  assumes "\<forall>st \<in> set (subTasks task). endTime st \<noteq> None \<longrightarrow> status st = Completed \<or> status st = Failed"
  shows "\<forall>st \<in> set (subTasks (updateSubTaskInTask now sid new prog msg task)).
           endTime st \<noteq> None \<longrightarrow> status st = Completed \<or> status st = Failed"
  using assms unfolding all_set_conv_all_nth
  by (auto simp: updateSubTaskInTask_nth)

lemma ended_only_when_final_method:
  assumes "\<forall>st \<in> set (subTasks task). endTime st \<noteq> None \<longrightarrow> status st = Completed \<or> status st = Failed"
    and "i < length (subTasks task)"
  shows "\<forall>st \<in> set ((subTasks task)[i := (subTasks task ! i)\<lparr>transferMethodUsed := Some m\<rparr>]).
           endTime st \<noteq> None \<longrightarrow> status st = Completed \<or> status st = Failed"
  using assms unfolding all_set_conv_all_nth
  by (auto simp: nth_list_update)

text \<open>
  C10: \<^verbatim>\<open>updateSubTaskStatus\<close> changes the end time of a sub-task only when the new status is
  completed or failed and no end time was set, and then to the time of the call; an update
  to cancelled changes no end time; and in the task that \<^verbatim>\<open>initiateNewTransfer\<close> creates,
  after any sequence of operations of the service, a sub-task that is cancelled has no end
  time.
\<close>

theorem end_time_rule:
  "(\<forall>tid' j. j < length (endTimes s tid')
        \<and> endTimes (updateSubTaskStatus now tid sid new prog msg s) tid' ! j \<noteq> endTimes s tid' ! j
      \<longrightarrow> (new = Completed \<or> new = Failed) \<and> endTimes s tid' ! j = None
          \<and> endTimes (updateSubTaskStatus now tid sid new prog msg s) tid' ! j = Some now)
   \<and> (\<forall>tid'. endTimes (updateSubTaskStatus now tid sid Cancelled prog msg s) tid' = endTimes s tid')
   \<and> (\<forall>task st. transferTasks (performAll ops (snd (initiateNewTransfer uuid t0 p uid s0))) (uuid 0)
                    = Some task
                 \<and> st \<in> set (subTasks task) \<and> status st = Cancelled
        \<longrightarrow> endTime st = None)"
proof (intro conjI allI impI)
  fix tid' j
  assume a: "j < length (endTimes s tid')
        \<and> endTimes (updateSubTaskStatus now tid sid new prog msg s) tid' ! j \<noteq> endTimes s tid' ! j"
  show "new = Completed \<or> new = Failed"
    and "endTimes s tid' ! j = None"
    and "endTimes (updateSubTaskStatus now tid sid new prog msg s) tid' ! j = Some now"
    using a updateSubTaskInTask_endTime [of j _ now sid new prog msg]
    by (auto simp: endTimes_def updateSubTaskStatus_tasks split: option.splits if_splits)
next
  fix tid'
  have "map endTime (subTasks (updateSubTaskInTask now sid Cancelled prog msg task)) =
          map endTime (subTasks task)" for task
    by (rule nth_equalityI) (simp_all add: updateSubTaskInTask_nth)
  then show "endTimes (updateSubTaskStatus now tid sid Cancelled prog msg s) tid' = endTimes s tid'"
    by (simp add: endTimes_def updateSubTaskStatus_tasks split: option.splits)
next
  fix task st
  let ?Q = "\<lambda>t. \<forall>st \<in> set (subTasks t). endTime st \<noteq> None \<longrightarrow> status st = Completed \<or> status st = Failed"
  let ?s1 = "snd (initiateNewTransfer uuid t0 p uid s0)"
  let ?new = "setOverallStatus t0 TaskInProgress (newTask uuid t0 p uid)"
  assume a: "transferTasks (performAll ops ?s1) (uuid 0) = Some task
               \<and> st \<in> set (subTasks task) \<and> status st = Cancelled"
  have stored: "transferTasks ?s1 (uuid 0) = Some ?new"
    by (simp add: initiateNewTransfer_eq)
  have fresh: "?Q ?new"
    using newTask_subTasks(3) [of uuid t0 p uid] by simp
  have "\<exists>task'. transferTasks (performAll ops ?s1) (uuid 0) = Some task' \<and> ?Q task'"
    by (rule performAll_preserves [where Q = ?Q, OF _ _ _ _ stored fresh])
       (simp_all add: ended_only_when_final_update ended_only_when_final_method)
  with a show "endTime st = None"
    by (cases "endTime st") auto
qed

theorem end_time_rule_witness:
  "0 < length (endTimes (service demoRunning) (demoUuid 0))
   \<and> endTimes (updateSubTaskStatus 3 (demoUuid 0) (demoUuid 1) Failed None None (service demoRunning))
        (demoUuid 0) ! 0 = Some 3
   \<and> endTimes (updateSubTaskStatus 3 (demoUuid 0) (demoUuid 1) Cancelled None None (service demoRunning))
        (demoUuid 0) = endTimes (service demoRunning) (demoUuid 0)
   \<and> status (hd (subTasks (the (transferTasks
         (performAll [(3, CancelTransferTask (demoUuid 0) demoOwner)]
            (snd (initiateNewTransfer demoUuid 0 demoPayload demoOwner emptyService)))
         (demoUuid 0))))) = Cancelled
   \<and> endTime (hd (subTasks (the (transferTasks
         (performAll [(3, CancelTransferTask (demoUuid 0) demoOwner)]
            (snd (initiateNewTransfer demoUuid 0 demoPayload demoOwner emptyService)))
         (demoUuid 0))))) = None"
proof -
  let ?s = "service demoRunning"
  let ?ops = "[(3, CancelTransferTask (demoUuid 0) demoOwner)]"
  let ?s2 = "performAll ?ops (snd (initiateNewTransfer demoUuid 0 demoPayload demoOwner emptyService))"
  let ?task = "the (transferTasks ?s2 (demoUuid 0))"
  have len: "0 < length (endTimes ?s (demoUuid 0))"
    by code_simp
  have changed: "endTimes (updateSubTaskStatus 3 (demoUuid 0) (demoUuid 1) Failed None None ?s)
                   (demoUuid 0) ! 0 \<noteq> endTimes ?s (demoUuid 0) ! 0"
    by code_simp
  have task: "transferTasks ?s2 (demoUuid 0) = Some ?task"
    by code_simp
  have mem: "hd (subTasks ?task) \<in> set (subTasks ?task)"
    by code_simp
  have cancelled: "status (hd (subTasks ?task)) = Cancelled"
    by code_simp
  note rule = end_time_rule [of ?s 3 "demoUuid 0" "demoUuid 1" _ None None ?ops demoUuid 0
      demoPayload demoOwner emptyService]
  from rule [of Failed] len changed
  have one: "endTimes (updateSubTaskStatus 3 (demoUuid 0) (demoUuid 1) Failed None None ?s)
                   (demoUuid 0) ! 0 = Some 3"
    by blast
  from rule [of Failed]
  have two: "endTimes (updateSubTaskStatus 3 (demoUuid 0) (demoUuid 1) Cancelled None None ?s)
               (demoUuid 0) = endTimes ?s (demoUuid 0)"
    by blast
  from rule [of Failed] task mem cancelled have three: "endTime (hd (subTasks ?task)) = None"
    by blast
  from len one two cancelled three show ?thesis by blast
qed

subsection \<open>Final sub-task statuses\<close>

text \<open>The guard of \<^verbatim>\<open>updateSubTaskStatus\<close>: a completed or failed sub-task stays completed or failed.\<close>

lemma completed_or_failed_stays:
  assumes "j < length (subTasks task)"
    and "status (subTasks task ! j) = Completed \<or> status (subTasks task ! j) = Failed"
  shows "status (subTasks (updateSubTaskInTask now sid new prog msg task) ! j) = Completed
         \<or> status (subTasks (updateSubTaskInTask now sid new prog msg task) ! j) = Failed"
  using assms by (auto simp: updateSubTaskInTask_nth)

text \<open>
  C1 on the code: the guard does not cover cancelled. After the owner has cancelled the
  running demo task both sub-tasks are cancelled, and a later
  \<^verbatim>\<open>updateSubTaskStatus(taskId, subTaskId, 'transferring', 0)\<close> sets the first one to
  transferring.
\<close>

theorem cancelled_sub_task_reopened:
  "subStatuses (service demoCancelled) (demoUuid 0) = [Cancelled, Cancelled]
   \<and> subStatuses (updateSubTaskStatus 4 (demoUuid 0) (demoUuid 1) Transferring (Some 0) None
                    (service demoCancelled)) (demoUuid 0) = [Transferring, Cancelled]"
  by code_simp

subsection \<open>Cancellation\<close>

lemma cancelSubTaskAt_ids [simp]:
  "map subTaskId (subTasks (cancelSubTaskAt now task i)) = map subTaskId (subTasks task)"
  by (simp add: cancelSubTaskAt_def Let_def)

lemma cancelSubTaskAt_nth:
  assumes "distinct (map subTaskId (subTasks task))" "i < length (subTasks task)"
    "j < length (subTasks task)"
  shows "status (subTasks (cancelSubTaskAt now task i) ! j) =
           (if j = i \<and> status (subTasks task ! i) \<noteq> Completed \<and> status (subTasks task ! i) \<noteq> Failed
            then Cancelled else status (subTasks task ! j))"
  using assms
  by (auto simp: cancelSubTaskAt_def Let_def updateSubTaskInTask_nth findSubTask_distinct)

lemma cancel_fold:
  assumes "distinct (map subTaskId (subTasks task))" "k \<le> length (subTasks task)"
  shows "map subTaskId (subTasks (foldl (cancelSubTaskAt now) task [0..<k])) = map subTaskId (subTasks task)
         \<and> (\<forall>j < length (subTasks task).
              status (subTasks (foldl (cancelSubTaskAt now) task [0..<k]) ! j) =
                (if j < k \<and> status (subTasks task ! j) \<noteq> Completed \<and> status (subTasks task ! j) \<noteq> Failed
                 then Cancelled else status (subTasks task ! j)))"
  using assms(2)
proof (induction k)
  case 0
  then show ?case by simp
next
  case (Suc k)
  let ?t = "foldl (cancelSubTaskAt now) task [0..<k]"
  from Suc have ids: "map subTaskId (subTasks ?t) = map subTaskId (subTasks task)"
    and sts: "\<And>j. j < length (subTasks task) \<Longrightarrow> status (subTasks ?t ! j) =
                (if j < k \<and> status (subTasks task ! j) \<noteq> Completed \<and> status (subTasks task ! j) \<noteq> Failed
                 then Cancelled else status (subTasks task ! j))"
    by simp_all
  from ids have len: "length (subTasks ?t) = length (subTasks task)"
    by (metis length_map)
  from ids assms(1) have dist: "distinct (map subTaskId (subTasks ?t))"
    by simp
  have step: "foldl (cancelSubTaskAt now) task [0..<Suc k] = cancelSubTaskAt now ?t k"
    by simp
  show ?case
    unfolding step
  proof (intro conjI allI impI)
    show "map subTaskId (subTasks (cancelSubTaskAt now ?t k)) = map subTaskId (subTasks task)"
      using ids by simp
  next
    fix j
    assume j: "j < length (subTasks task)"
    from Suc.prems have k: "k < length (subTasks ?t)"
      using len by simp
    from j len have j': "j < length (subTasks ?t)"
      by simp
    show "status (subTasks (cancelSubTaskAt now ?t k) ! j) =
            (if j < Suc k \<and> status (subTasks task ! j) \<noteq> Completed \<and> status (subTasks task ! j) \<noteq> Failed
             then Cancelled else status (subTasks task ! j))"
      unfolding cancelSubTaskAt_nth [OF dist k j']
      using sts [OF j] sts [of k] k len by (auto simp: less_Suc_eq)
  qed
qed

lemma cancelTask_statuses:
  assumes "distinct (map subTaskId (subTasks task))"
  shows "map status (subTasks (cancelTask now task)) =
           map (\<lambda>x. if x = Completed \<or> x = Failed then x else Cancelled) (map status (subTasks task))"
proof -
  let ?t1 = "if taskStatus task \<noteq> TaskCompleted \<and> taskStatus task \<noteq> TaskFailed
                \<and> taskStatus task \<noteq> TaskCancelled
             then setOverallStatus now TaskCancelling task else task"
  have same: "subTasks ?t1 = subTasks task"
    by simp
  have dist: "distinct (map subTaskId (subTasks ?t1))"
    using assms by (simp only: same)
  from cancel_fold [OF dist order_refl, of now]
  have ids: "map subTaskId (subTasks (cancelTask now task)) = map subTaskId (subTasks task)"
    and sts: "\<And>j. j < length (subTasks task) \<Longrightarrow>
               status (subTasks (cancelTask now task) ! j) =
                 (if status (subTasks task ! j) \<noteq> Completed \<and> status (subTasks task ! j) \<noteq> Failed
                  then Cancelled else status (subTasks task ! j))"
    by (simp_all add: cancelTask_def Let_def same)
  from ids have "length (subTasks (cancelTask now task)) = length (subTasks task)"
    by (metis length_map)
  then show ?thesis
    by (intro nth_equalityI) (auto simp: sts)
qed

lemma cancelTask_nothing_to_cancel:
  assumes "\<forall>st \<in> set (subTasks task). status st = Completed \<or> status st = Failed \<or> status st = Cancelled"
  shows "cancelTask now task =
           (if taskStatus task \<noteq> TaskCompleted \<and> taskStatus task \<noteq> TaskFailed
               \<and> taskStatus task \<noteq> TaskCancelled
            then setOverallStatus now TaskCancelling task else task)"
proof -
  have "k \<le> length (subTasks t) \<Longrightarrow>
          \<forall>st \<in> set (subTasks t). status st = Completed \<or> status st = Failed \<or> status st = Cancelled \<Longrightarrow>
          foldl (cancelSubTaskAt now) t [0..<k] = t" for k t
    by (induction k) (auto simp: cancelSubTaskAt_def Let_def)
  from this [of "length (subTasks task)"] assms show ?thesis
    by (simp add: cancelTask_def Let_def)
qed

text \<open>
  C6, as the code has it: \<^verbatim>\<open>cancelTransferTask\<close> returns false exactly when the task is
  unknown, is not owned by the caller, or has no abort controller registered. For a known
  task of the caller with a controller, whose sub-tasks have distinct identifiers, it returns
  true, the signal of the controller is aborted, every sub-task that was neither completed nor
  failed is cancelled and the others keep their status; and when no sub-task had to be
  cancelled and the task was not completed, failed or cancelled, the task is cancelling.
\<close>

theorem cancel_contract:
  "(\<not> fst (cancelTransferTask now tid uid s) \<longleftrightarrow>
      (case transferTasks s tid of
         None \<Rightarrow> True
       | Some task \<Rightarrow> userId task \<noteq> uid \<or> taskAbortControllers s tid = None))
   \<and> (\<forall>task. transferTasks s tid = Some task \<and> userId task = uid
               \<and> taskAbortControllers s tid \<noteq> None
               \<and> distinct (map subTaskId (subTasks task))
        \<longrightarrow> fst (cancelTransferTask now tid uid s)
            \<and> taskAbortControllers (snd (cancelTransferTask now tid uid s)) tid = Some True
            \<and> subStatuses (snd (cancelTransferTask now tid uid s)) tid =
                map (\<lambda>x. if x = Completed \<or> x = Failed then x else Cancelled) (subStatuses s tid)
            \<and> ((\<forall>x \<in> set (subStatuses s tid). x = Completed \<or> x = Failed \<or> x = Cancelled)
                 \<and> taskStatus task \<noteq> TaskCompleted \<and> taskStatus task \<noteq> TaskFailed
                 \<and> taskStatus task \<noteq> TaskCancelled
               \<longrightarrow> statusOf (snd (cancelTransferTask now tid uid s)) tid = Some TaskCancelling))"
proof (intro conjI allI impI)
  show "\<not> fst (cancelTransferTask now tid uid s) \<longleftrightarrow>
      (case transferTasks s tid of
         None \<Rightarrow> True
       | Some task \<Rightarrow> userId task \<noteq> uid \<or> taskAbortControllers s tid = None)"
    by (simp add: cancelTransferTask_def split: option.splits)
next
  fix task
  assume a: "transferTasks s tid = Some task \<and> userId task = uid
               \<and> taskAbortControllers s tid \<noteq> None
               \<and> distinct (map subTaskId (subTasks task))"
  then obtain b where b: "taskAbortControllers s tid = Some b"
    by auto
  from a b have eq: "cancelTransferTask now tid uid s =
      (True, s\<lparr>transferTasks := (transferTasks s)(tid \<mapsto> cancelTask now task),
               taskAbortControllers := (taskAbortControllers s)(tid \<mapsto> True)\<rparr>)"
    by (simp add: cancelTransferTask_def)
  show "fst (cancelTransferTask now tid uid s)"
    and "taskAbortControllers (snd (cancelTransferTask now tid uid s)) tid = Some True"
    by (simp_all add: eq)
  show "subStatuses (snd (cancelTransferTask now tid uid s)) tid =
          map (\<lambda>x. if x = Completed \<or> x = Failed then x else Cancelled) (subStatuses s tid)"
    using a by (simp add: eq subStatuses_def cancelTask_statuses)
  assume c: "(\<forall>x \<in> set (subStatuses s tid). x = Completed \<or> x = Failed \<or> x = Cancelled)
                 \<and> taskStatus task \<noteq> TaskCompleted \<and> taskStatus task \<noteq> TaskFailed
                 \<and> taskStatus task \<noteq> TaskCancelled"
  with a have "\<forall>st \<in> set (subTasks task). status st = Completed \<or> status st = Failed \<or> status st = Cancelled"
    by (simp add: subStatuses_def)
  from cancelTask_nothing_to_cancel [OF this, of now] c
  show "statusOf (snd (cancelTransferTask now tid uid s)) tid = Some TaskCancelling"
    by (simp add: eq statusOf_def setOverallStatus_def)
qed

theorem cancel_contract_witness:
  "fst (cancelTransferTask 3 (demoUuid 0) demoOwner (service demoRunning))
   \<and> subStatuses (service demoRunning) (demoUuid 0) = [Connecting, Connecting]
   \<and> subStatuses (snd (cancelTransferTask 3 (demoUuid 0) demoOwner (service demoRunning))) (demoUuid 0)
       = [Cancelled, Cancelled]
   \<and> statusOf (service demoCancelled) (demoUuid 0) = Some TaskInProgress
   \<and> statusOf (snd (cancelTransferTask 4 (demoUuid 0) demoOwner (service demoCancelled))) (demoUuid 0)
       = Some TaskCancelling"
proof -
  let ?tid = "demoUuid 0"
  let ?s = "service demoRunning"
  let ?task = "the (transferTasks ?s ?tid)"
  let ?s' = "service demoCancelled"
  let ?task' = "the (transferTasks ?s' ?tid)"
  have task: "transferTasks ?s ?tid = Some ?task" "userId ?task = demoOwner"
    "taskAbortControllers ?s ?tid \<noteq> None" "distinct (map subTaskId (subTasks ?task))"
    by code_simp+
  have sts: "subStatuses ?s ?tid = [Connecting, Connecting]"
    by code_simp
  have task': "transferTasks ?s' ?tid = Some ?task'" "userId ?task' = demoOwner"
    "taskAbortControllers ?s' ?tid \<noteq> None" "distinct (map subTaskId (subTasks ?task'))"
    by code_simp+
  have sts': "\<forall>x \<in> set (subStatuses ?s' ?tid). x = Completed \<or> x = Failed \<or> x = Cancelled"
    by code_simp
  have st': "taskStatus ?task' \<noteq> TaskCompleted" "taskStatus ?task' \<noteq> TaskFailed"
    "taskStatus ?task' \<noteq> TaskCancelled" "statusOf ?s' ?tid = Some TaskInProgress"
    by code_simp+
  from cancel_contract [of 3 ?tid demoOwner ?s] task
  have "fst (cancelTransferTask 3 ?tid demoOwner ?s)"
    and "subStatuses (snd (cancelTransferTask 3 ?tid demoOwner ?s)) ?tid =
           map (\<lambda>x. if x = Completed \<or> x = Failed then x else Cancelled) (subStatuses ?s ?tid)"
    by blast+
  moreover from cancel_contract [of 4 ?tid demoOwner ?s'] task' sts' st'
  have "statusOf (snd (cancelTransferTask 4 ?tid demoOwner ?s')) ?tid = Some TaskCancelling"
    by blast
  ultimately show ?thesis
    using sts st'(4) by simp
qed

text \<open>
  C6 as it is stated fails on a task whose processing has ended: the demo task is known,
  belongs to the caller and is completed, its controller has been deleted, and
  \<^verbatim>\<open>cancelTransferTask\<close> returns false.
\<close>

theorem cancel_finished_task_counterexample:
  "map_option userId (transferTasks (service demoCompleted) (demoUuid 0)) = Some demoOwner
   \<and> statusOf (service demoCompleted) (demoUuid 0) = Some TaskCompleted
   \<and> \<not> fst (cancelTransferTask 6 (demoUuid 0) demoOwner (service demoCompleted))"
  by code_simp

subsection \<open>The concurrency bound\<close>

lemma covered_mono: "covered sts A \<Longrightarrow> A \<subseteq> B \<Longrightarrow> covered sts B"
  by (auto simp: covered_def)

lemma covered_update_inactive:
  assumes "covered (subTasks task) A" "new \<noteq> Connecting" "new \<noteq> Transferring"
  shows "covered (subTasks (updateSubTaskInTask now sid new prog msg task)) A"
proof -
  have "isActive (subTasks (updateSubTaskInTask now sid new prog msg task) ! i)
          \<Longrightarrow> isActive (subTasks task ! i)" if "i < length (subTasks task)" for i
    using that assms(2,3) by (auto simp: updateSubTaskInTask_nth isActive_def split: if_splits)
  with assms(1) show ?thesis
    by (auto simp: covered_def)
qed

lemma covered_update_at:
  assumes "covered (subTasks task) A" "i < length (subTasks task)"
  shows "covered (subTasks (updateSubTaskInTask now (subTaskId (subTasks task ! i)) new prog msg task))
           (insert i A)"
proof -
  from assms have find: "findSubTask (subTaskId (subTasks task ! i)) (subTasks task) = Some i"
    by (simp add: covered_def findSubTask_distinct)
  have "isActive (subTasks (updateSubTaskInTask now (subTaskId (subTasks task ! i)) new prog msg task) ! j)
          \<Longrightarrow> j = i \<or> isActive (subTasks task ! j)" if "j < length (subTasks task)" for j
    using that find by (auto simp: updateSubTaskInTask_nth split: if_splits)
  with assms(1) show ?thesis
    by (auto simp: covered_def)
qed

lemma covered_update_final:
  assumes "covered (subTasks task) A" "i < length (subTasks task)"
    "new \<noteq> Connecting" "new \<noteq> Transferring" "new \<noteq> Queued"
  shows "covered (subTasks (updateSubTaskInTask now (subTaskId (subTasks task ! i)) new prog msg task))
           (A - {i})"
proof -
  from assms have find: "findSubTask (subTaskId (subTasks task ! i)) (subTasks task) = Some i"
    by (simp add: covered_def findSubTask_distinct)
  have "\<not> isActive (subTasks (updateSubTaskInTask now (subTaskId (subTasks task ! i)) new prog msg task) ! i)"
    using assms(2-5) find by (auto simp: updateSubTaskInTask_nth isActive_def)
  moreover from covered_update_inactive [OF assms(1,3,4)]
  have "covered (subTasks (updateSubTaskInTask now (subTaskId (subTasks task ! i)) new prog msg task)) A" .
  ultimately show ?thesis
    using assms(2) by (auto simp: covered_def)
qed

lemma covered_cancelTask:
  "covered (subTasks task) A \<Longrightarrow> covered (subTasks (cancelTask now task)) A"
  by (rule cancelTask_preserves [where Q = "\<lambda>t. covered (subTasks t) A"])
     (simp_all add: covered_update_inactive)

lemma covered_cancelUnfinished:
  "covered (subTasks task) A \<Longrightarrow> covered (subTasks (foldl (cancelUnfinishedAt now) task is)) A"
  by (rule foldl_preserves [where Q = "\<lambda>t. covered (subTasks t) A"])
     (simp_all add: cancelUnfinishedAt_def Let_def covered_update_inactive)

text \<open>The number of active sub-tasks is at most the number of positions that cover them.\<close>

lemma covered_count:
  assumes "covered sts A" "finite A"
  shows "length (filter isActive sts) \<le> card A"
proof -
  have "length (filter isActive sts) = card {i. i < length sts \<and> isActive (sts ! i)}"
    by (rule length_filter_conv_card)
  also from assms(1) have "{i. i < length sts \<and> isActive (sts ! i)} \<subseteq> A"
    by (auto simp: covered_def)
  then have "card {i. i < length sts \<and> isActive (sts ! i)} \<le> card A"
    by (rule card_mono [OF assms(2)])
  finally show ?thesis .
qed

lemma updateOverallTaskStatus_tasks:
  "transferTasks (updateOverallTaskStatus now tid st s) tid' =
     (if tid' = tid then map_option (setOverallStatus now st) (transferTasks s tid)
      else transferTasks s tid')"
  by (simp add: updateOverallTaskStatus_def split: option.splits)

lemma finalizeOverallTaskStatus_tasks:
  "transferTasks (finalizeOverallTaskStatus now tid s) tid' =
     (if tid' = tid then map_option (rollupTask now) (transferTasks s tid)
      else transferTasks s tid')"
  by (simp add: finalizeOverallTaskStatus_def updateOverallTaskStatusBasedOnSubTasks_def
           split: option.splits)

lemma cancelTransferTask_tasks:
  "transferTasks (snd (cancelTransferTask now tid uid s)) tid' =
     (if tid' = tid \<and> fst (cancelTransferTask now tid uid s)
      then map_option (cancelTask now) (transferTasks s tid)
      else transferTasks s tid')"
  by (simp add: cancelTransferTask_def split: option.splits)

lemma schedInv_settle [simp]:
  "schedInv (resolveAllTasksCompleted P) = schedInv P"
  "schedInv (rejectAllTasksCompleted P) = schedInv P"
  "schedInv (P\<lparr>onAbortOverall := b\<rparr>) = schedInv P"
  "schedInv (P\<lparr>signalAborted := b\<rparr>) = schedInv P"
  by (simp_all add: schedInv_def procSubTasks_def resolveAllTasksCompleted_def
        rejectAllTasksCompleted_def)

lemma phase_settle [simp]:
  "phase (resolveAllTasksCompleted P) = phase P"
  "phase (rejectAllTasksCompleted P) = phase P"
  by (simp_all add: resolveAllTasksCompleted_def rejectAllTasksCompleted_def)

lemma schedInv_maybe_resolve:
  "schedInv (if c then resolveAllTasksCompleted (P\<lparr>onAbortOverall := False\<rparr>) else P) = schedInv P"
  by simp

lemma phase_maybe_resolve:
  "phase (if c then resolveAllTasksCompleted (P\<lparr>onAbortOverall := False\<rparr>) else P) = phase P"
  by simp

text \<open>A change of the service that keeps the task and the coverage keeps the invariant.\<close>

lemma schedInv_service:
  assumes "schedInv P"
    and "\<And>task. transferTasks (service P) (procTaskId P) = Some task \<Longrightarrow>
           \<exists>task'. transferTasks s' (procTaskId P) = Some task'
                   \<and> covered (subTasks task') (pendingWrappers P)"
  shows "schedInv (P\<lparr>service := s'\<rparr>)"
  using assms by (auto simp: schedInv_def procSubTasks_def)

lemma schedInv_exit:
  assumes "schedInv P"
  shows "schedInv (processTransferTask_exit now out P)"
proof -
  let ?tid = "procTaskId P"
  let ?s1 = "case out of
                  Normal \<Rightarrow> service P
                | AbortError \<Rightarrow> updateOverallTaskStatus now ?tid TaskCancelled (service P)
                | OtherError \<Rightarrow> updateOverallTaskStatus now ?tid TaskFailed (service P)"
  let ?s2 = "finalizeOverallTaskStatus now ?tid ?s1"
  let ?s3 = "?s2\<lparr>taskAbortControllers := (taskAbortControllers ?s2)(?tid := None)\<rparr>"
  have "schedInv (P\<lparr>service := ?s3\<rparr>)"
  proof (rule schedInv_service [OF assms])
    fix task
    assume "transferTasks (service P) ?tid = Some task"
    with assms
    show "\<exists>task'. transferTasks ?s3 ?tid = Some task' \<and> covered (subTasks task') (pendingWrappers P)"
      by (cases out)
         (auto simp: finalizeOverallTaskStatus_tasks updateOverallTaskStatus_tasks schedInv_def
            procSubTasks_def)
  qed
  then have "schedInv (P\<lparr>service := ?s3, phase := Finished\<rparr>)"
    by (simp add: schedInv_def procSubTasks_def)
  then show ?thesis
    by (simp add: processTransferTask_exit_def Let_def)
qed

lemma subTaskAt_Some:
  "subTaskAt P i = Some st \<Longrightarrow>
     \<exists>task. transferTasks (service P) (procTaskId P) = Some task \<and> i < length (subTasks task)
            \<and> st = subTasks task ! i"
  by (auto simp: subTaskAt_def split: option.splits if_splits)

text \<open>A status update made for the sub-task at a position in flight keeps the invariant.\<close>

lemma schedInv_update_pending:
  assumes "schedInv P" "subTaskAt P i = Some st" "i \<in> pendingWrappers P"
  shows "schedInv (P\<lparr>service := updateSubTaskStatus now (procTaskId P) (subTaskId st) new prog msg
                                (service P)\<rparr>)"
proof (rule schedInv_service [OF assms(1)])
  fix task
  assume task: "transferTasks (service P) (procTaskId P) = Some task"
  with subTaskAt_Some [OF assms(2)] have i: "i < length (subTasks task)" and st: "st = subTasks task ! i"
    by auto
  from assms(1) task have "covered (subTasks task) (pendingWrappers P)"
    by (simp add: schedInv_def procSubTasks_def)
  from covered_update_at [OF this i, of now new prog msg] assms(3)
  have "covered (subTasks (updateSubTaskInTask now (subTaskId st) new prog msg task)) (pendingWrappers P)"
    by (simp add: st insert_absorb)
  with task show "\<exists>task'. transferTasks (updateSubTaskStatus now (procTaskId P) (subTaskId st) new prog msg
                    (service P)) (procTaskId P) = Some task'
                   \<and> covered (subTasks task') (pendingWrappers P)"
    by (simp add: updateSubTaskStatus_tasks)
qed

lemma launchWrapper_fields [simp]:
  "phase (launchWrapper now st P) = phase P"
  "procTaskId (launchWrapper now st P) = procTaskId P"
  "pendingWrappers (launchWrapper now st P) = pendingWrappers P"
  "currentlyActiveSubTasks (launchWrapper now st P) = currentlyActiveSubTasks P"
  "currentSubTaskIndex (launchWrapper now st P) = currentSubTaskIndex P"
  "totalSubTasks (launchWrapper now st P) = totalSubTasks P"
  "signalAborted (launchWrapper now st P) = signalAborted P"
  by (simp_all add: launchWrapper_def Let_def split: option.splits)

lemma schedInv_launchWrapper:
  assumes "schedInv P" "subTaskAt P i = Some st" "i \<in> pendingWrappers P"
  shows "schedInv (launchWrapper now st P)"
proof -
  have "launchWrapper now st P = P
        \<or> (\<exists>new prog msg. launchWrapper now st P =
              P\<lparr>service := updateSubTaskStatus now (procTaskId P) (subTaskId st) new prog msg (service P)\<rparr>)"
    by (auto simp: launchWrapper_def Let_def split: option.splits)
  with assms schedInv_update_pending [OF assms] show ?thesis
    by auto
qed

text \<open>Taking the next position into flight.\<close>

lemma schedInv_take:
  assumes "schedInv P" "currentlyActiveSubTasks P < MAX_CONCURRENT_SUB_TASKS"
    "phase P \<noteq> AwaitSourceCredentials" "phase P \<noteq> AwaitSourceConnect"
  shows "schedInv (P\<lparr>currentlyActiveSubTasks := currentlyActiveSubTasks P + 1,
                     currentSubTaskIndex := currentSubTaskIndex P + 1,
                     pendingWrappers := insert (currentSubTaskIndex P) (pendingWrappers P)\<rparr>)"
proof -
  from assms(1) have "currentSubTaskIndex P \<notin> pendingWrappers P"
    by (auto simp: schedInv_def)
  with assms show ?thesis
    by (auto simp: schedInv_def procSubTasks_def intro: covered_mono)
qed

lemma schedInv_skip:
  assumes "schedInv P"
  shows "schedInv (P\<lparr>currentSubTaskIndex := currentSubTaskIndex P + 1\<rparr>)"
  using assms by (auto simp: schedInv_def procSubTasks_def)

lemma launchLoop_inv:
  "schedInv P \<Longrightarrow> phase P \<noteq> AwaitSourceCredentials \<Longrightarrow> phase P \<noteq> AwaitSourceConnect \<Longrightarrow>
     schedInv (launchLoop now P) \<and> phase (launchLoop now P) = phase P"
proof (induction now P rule: launchLoop.induct)
  case (1 now P)
  show ?case
  proof (cases "currentlyActiveSubTasks P < MAX_CONCURRENT_SUB_TASKS
                  \<and> currentSubTaskIndex P < totalSubTasks P")
    case False
    then have "launchLoop now P = P"
      by (subst launchLoop.simps [of now P]) auto
    with "1.prems" show ?thesis by simp
  next
    case cond: True
    show ?thesis
    proof (cases "subTaskAt P (currentSubTaskIndex P)")
      case None
      with cond have "launchLoop now P = P"
        by (subst launchLoop.simps [of now P]) simp
      with "1.prems" show ?thesis by simp
    next
      case (Some st)
      show ?thesis
      proof (cases "status st = Cancelled")
        case True
        let ?P1 = "P\<lparr>currentSubTaskIndex := currentSubTaskIndex P + 1\<rparr>"
        let ?P2 = "if currentSubTaskIndex ?P1 = totalSubTasks ?P1 \<and> currentlyActiveSubTasks ?P1 = 0
                   then resolveAllTasksCompleted (?P1\<lparr>onAbortOverall := False\<rparr>) else ?P1"
        have inv: "schedInv ?P2"
          unfolding schedInv_maybe_resolve by (rule schedInv_skip [OF "1.prems"(1)])
        have ph: "phase ?P2 = phase P"
          unfolding phase_maybe_resolve by simp
        from "1.IH"(1) [OF cond Some True refl inv] ph "1.prems"(2,3)
        have "schedInv (launchLoop now ?P2) \<and> phase (launchLoop now ?P2) = phase P"
          by simp
        moreover from cond Some True have "launchLoop now P = launchLoop now ?P2"
          by (subst launchLoop.simps [of now P]) (simp add: Let_def)
        ultimately show ?thesis by simp
      next
        case False
        let ?P1 = "P\<lparr>currentlyActiveSubTasks := currentlyActiveSubTasks P + 1,
                      currentSubTaskIndex := currentSubTaskIndex P + 1,
                      pendingWrappers := insert (currentSubTaskIndex P) (pendingWrappers P)\<rparr>"
        from cond "1.prems" have inv1: "schedInv ?P1"
          by (intro schedInv_take) simp_all
        have at: "subTaskAt ?P1 (currentSubTaskIndex P) = Some st"
          using Some by (simp add: subTaskAt_def)
        have "schedInv (launchWrapper now st ?P1)"
          by (rule schedInv_launchWrapper [OF inv1 at]) simp
        from "1.IH"(2) [OF cond Some False this] "1.prems"(2,3)
        have "schedInv (launchLoop now (launchWrapper now st ?P1))
              \<and> phase (launchLoop now (launchWrapper now st ?P1)) = phase P"
          by simp
        moreover from cond Some False
        have "launchLoop now P = launchLoop now (launchWrapper now st ?P1)"
          by (subst launchLoop.simps [of now P]) simp
        ultimately show ?thesis by simp
      qed
    qed
  qed
qed

lemma launchNextSubTaskIfPossible_inv:
  assumes "schedInv P" "phase P \<noteq> AwaitSourceCredentials" "phase P \<noteq> AwaitSourceConnect"
  shows "schedInv (launchNextSubTaskIfPossible now P)"
proof -
  from launchLoop_inv [OF assms, of now] have "schedInv (launchLoop now P)"
    by simp
  with assms(1) show ?thesis
    by (simp add: launchNextSubTaskIfPossible_def Let_def)
qed

text \<open>The wrapper at position \<open>i\<close> has made its last update, which was not to an active status.\<close>

lemma schedInv_wrapperFinally:
  assumes "schedInv P" "i \<in> pendingWrappers P" "i < length (procSubTasks P)"
    "\<not> isActive (procSubTasks P ! i)"
  shows "schedInv (wrapperFinally now i P)"
proof -
  let ?P1 = "P\<lparr>currentlyActiveSubTasks := currentlyActiveSubTasks P - 1,
                 pendingWrappers := pendingWrappers P - {i}\<rparr>"
  from assms have cov: "covered (procSubTasks P) (pendingWrappers P - {i})"
    by (auto simp: schedInv_def covered_def)
  from assms(1,2) have early: "phase P \<noteq> AwaitSourceCredentials" "phase P \<noteq> AwaitSourceConnect"
    by (auto simp: schedInv_def)
  from assms(1,2) cov have inv1: "schedInv ?P1"
    by (auto simp: schedInv_def procSubTasks_def)
  from early have "schedInv (launchNextSubTaskIfPossible now ?P1)"
    by (intro launchNextSubTaskIfPossible_inv [OF inv1]) simp_all
  with inv1 have "schedInv (if c1 then resolveAllTasksCompleted (?P1\<lparr>onAbortOverall := False\<rparr>)
                            else if c2 then launchNextSubTaskIfPossible now ?P1
                            else if c3 then resolveAllTasksCompleted (?P1\<lparr>onAbortOverall := False\<rparr>)
                            else ?P1)" for c1 c2 c3
    by simp
  then show ?thesis
    unfolding wrapperFinally_def Let_def .
qed

lemma schedInv_settled:
  assumes "schedInv P" "subTaskAt P i = Some st" "i \<in> pendingWrappers P"
    "fin = Completed \<or> fin = Failed \<or> fin = Cancelled"
  shows "schedInv (wrapperFinally now i
           (P\<lparr>service := updateSubTaskStatus now (procTaskId P) (subTaskId st) fin prog msg
                             (service P)\<rparr>))"
proof -
  from subTaskAt_Some [OF assms(2)] obtain task
    where task: "transferTasks (service P) (procTaskId P) = Some task"
      and i: "i < length (subTasks task)" and st: "st = subTasks task ! i"
    by blast
  let ?sid = "subTaskId (subTasks task ! i)"
  let ?P' = "P\<lparr>service := updateSubTaskStatus now (procTaskId P) ?sid fin prog msg (service P)\<rparr>"
  from assms(1) task have cov: "covered (subTasks task) (pendingWrappers P)"
    by (simp add: schedInv_def procSubTasks_def)
  from assms(4) have fin: "fin \<noteq> Connecting" "fin \<noteq> Transferring" "fin \<noteq> Queued"
    by auto
  have subs: "procSubTasks ?P' = subTasks (updateSubTaskInTask now ?sid fin prog msg task)"
    using task by (simp add: procSubTasks_def updateSubTaskStatus_tasks)
  from covered_update_final [OF cov i fin, of now prog msg]
  have a: "\<not> isActive (procSubTasks ?P' ! i)"
    unfolding subs using i by (auto simp: covered_def)
  have b: "i < length (procSubTasks ?P')"
    unfolding subs using i by simp
  have c: "schedInv ?P'"
    using schedInv_update_pending [OF assms(1-3), of now fin prog msg] by (simp add: st)
  have d: "i \<in> pendingWrappers ?P'"
    using assms(3) by simp
  have "schedInv (wrapperFinally now i ?P')"
    by (rule schedInv_wrapperFinally [OF c d b a])
  then show ?thesis
    by (simp add: st)
qed

lemma pred_if: "(c \<Longrightarrow> Q a) \<Longrightarrow> (\<not> c \<Longrightarrow> Q b) \<Longrightarrow> Q (if c then a else b)"
  by simp

lemma schedInv_cong:
  assumes "schedInv Q" "service P = service Q" "procTaskId P = procTaskId Q"
    "pendingWrappers P = pendingWrappers Q" "currentlyActiveSubTasks P = currentlyActiveSubTasks Q"
    "currentSubTaskIndex P = currentSubTaskIndex Q" "phase P = phase Q"
  shows "schedInv P"
  using assms by (simp add: schedInv_def procSubTasks_def)

lemma schedInv_startSubTasks:
  assumes "schedInv P" "phase P = AwaitSourceConnect"
  shows "schedInv (startSubTasks now P)"
proof (cases "transferTasks (service P) (procTaskId P)")
  case None
  with assms show ?thesis by (simp add: startSubTasks_def)
next
  case (Some task)
  let ?P1 = "P\<lparr>phase := AwaitSubTasks, currentlyActiveSubTasks := 0,
                      currentSubTaskIndex := 0, totalSubTasks := length (subTasks task),
                      allTasksCompleted := None, onAbortOverall := True\<rparr>"
  from assms have empty: "pendingWrappers P = {}"
    by (simp add: schedInv_def)
  with assms(1) have inv1: "schedInv ?P1"
    by (simp add: schedInv_def procSubTasks_def)
  have next_ok: "schedInv (launchNextSubTaskIfPossible now ?P1)"
    by (rule launchNextSubTaskIfPossible_inv [OF inv1]) simp_all
  have "schedInv (?P1\<lparr>service := (service ?P1)
                            \<lparr>transferTasks := (transferTasks (service ?P1))
                               (procTaskId P \<mapsto>
                                  foldl (cancelUnfinishedAt now) task [0..<length (subTasks task)])\<rparr>\<rparr>)"
  proof (rule schedInv_service [OF inv1])
    fix task0
    assume "transferTasks (service ?P1) (procTaskId ?P1) = Some task0"
    with Some have "task0 = task" by simp
    with inv1 Some have "covered (subTasks task) (pendingWrappers ?P1)"
      by (auto simp: schedInv_def procSubTasks_def)
    from covered_cancelUnfinished [OF this, of now]
    show "\<exists>task'. transferTasks ((service ?P1)
                            \<lparr>transferTasks := (transferTasks (service ?P1))
                               (procTaskId P \<mapsto>
                                  foldl (cancelUnfinishedAt now) task [0..<length (subTasks task)])\<rparr>)
                      (procTaskId ?P1) = Some task'
                   \<and> covered (subTasks task') (pendingWrappers ?P1)"
      by simp
  qed
  then have cancel_ok: "schedInv (rejectAllTasksCompleted (?P1\<lparr>service := (service ?P1)
                            \<lparr>transferTasks := (transferTasks (service ?P1))
                               (procTaskId P \<mapsto>
                                  foldl (cancelUnfinishedAt now) task [0..<length (subTasks task)])\<rparr>,
                         onAbortOverall := False\<rparr>))"
    by (rule schedInv_cong) (simp_all add: rejectAllTasksCompleted_def)
  have resolve_ok: "schedInv (resolveAllTasksCompleted (?P1\<lparr>onAbortOverall := False\<rparr>))"
    by (rule schedInv_cong [OF inv1]) (simp_all add: resolveAllTasksCompleted_def)
  have eq: "startSubTasks now P =
          (if totalSubTasks ?P1 = 0 then resolveAllTasksCompleted (?P1\<lparr>onAbortOverall := False\<rparr>)
           else if signalAborted ?P1
           then rejectAllTasksCompleted (?P1\<lparr>service := (service ?P1)
                            \<lparr>transferTasks := (transferTasks (service ?P1))
                               (procTaskId P \<mapsto>
                                  foldl (cancelUnfinishedAt now) task [0..<length (subTasks task)])\<rparr>,
                         onAbortOverall := False\<rparr>)
           else launchNextSubTaskIfPossible now ?P1)"
    unfolding startSubTasks_def Let_def Some option.case ..
  show ?thesis
    unfolding eq by (intro pred_if [where Q = schedInv] resolve_ok cancel_ok next_ok)
qed

lemma schedInv_cancel:
  assumes "schedInv P"
  shows "schedInv (P\<lparr>service := snd (cancelTransferTask now (procTaskId P) uid (service P))\<rparr>)"
proof (rule schedInv_service [OF assms])
  fix task
  assume task: "transferTasks (service P) (procTaskId P) = Some task"
  with assms have "covered (subTasks task) (pendingWrappers P)"
    by (simp add: schedInv_def procSubTasks_def)
  with task covered_cancelTask [of task "pendingWrappers P" now]
  show "\<exists>task'. transferTasks (snd (cancelTransferTask now (procTaskId P) uid (service P)))
                   (procTaskId P) = Some task'
                 \<and> covered (subTasks task') (pendingWrappers P)"
    by (simp add: cancelTransferTask_tasks)
qed

lemma processTransferTask_exit_procTaskId [simp]:
  "procTaskId (processTransferTask_exit now out P) = procTaskId P"
  by (simp add: processTransferTask_exit_def Let_def)

lemma step_inv: "schedInv P \<Longrightarrow> schedInv (step now e P)"
proof (cases e)
  case (SourceCredentials found)
  assume inv: "schedInv P"
  then have "schedInv (P\<lparr>phase := AwaitSourceConnect\<rparr>)" if "phase P = AwaitSourceCredentials"
    using that by (auto simp: schedInv_def procSubTasks_def)
  with inv SourceCredentials show ?thesis
    by (simp add: schedInv_exit)
next
  case (SourceConnected ready)
  assume "schedInv P"
  with SourceConnected show ?thesis
    by (simp add: schedInv_exit schedInv_startSubTasks)
next
  case (Cancel uid)
  assume inv: "schedInv P"
  obtain ok s' where r: "cancelTransferTask now (procTaskId P) uid (service P) = (ok, s')"
    by (cases "cancelTransferTask now (procTaskId P) uid (service P)")
  from schedInv_cancel [OF inv, of now uid] r have inv1: "schedInv (P\<lparr>service := s'\<rparr>)"
    by simp
  let ?P1 = "P\<lparr>service := s', signalAborted := True\<rparr>"
  have inv2: "schedInv ?P1"
    by (rule schedInv_cong [OF inv1]) simp_all
  have inv3: "schedInv (rejectAllTasksCompleted (?P1\<lparr>onAbortOverall := False\<rparr>))"
    by (rule schedInv_cong [OF inv1]) (simp_all add: rejectAllTasksCompleted_def)
  note inv4 = schedInv_exit [OF inv2, of now AbortError]
  show ?thesis
  proof (cases ok)
    case False
    with r inv1 Cancel show ?thesis by simp
  next
    case True
    with r Cancel have eq: "step now e P =
        (if signalAborted P then ?P1
         else if phase P = AwaitSourceConnect then processTransferTask_exit now AbortError ?P1
         else if onAbortOverall P then rejectAllTasksCompleted (?P1\<lparr>onAbortOverall := False\<rparr>)
         else ?P1)"
      by (simp add: Let_def)
    show ?thesis
      unfolding eq by (intro pred_if [where Q = schedInv] inv2 inv3 inv4)
  qed
next
  case (SubTaskProgress i p msg)
  assume "schedInv P"
  with SubTaskProgress show ?thesis
    by (auto simp: schedInv_update_pending split: option.splits)
next
  case (SubTaskSettled i fin msg)
  assume "schedInv P"
  with SubTaskSettled show ?thesis
    by (auto simp: schedInv_settled split: option.splits)
next
  case Resume
  assume "schedInv P"
  with Resume show ?thesis
    by (auto simp: schedInv_exit split: option.splits settlement.splits)
qed

lemma run_inv: "schedInv P \<Longrightarrow> schedInv (run es P)"
proof (induction es arbitrary: P)
  case Nil
  then show ?case by simp
next
  case (Cons x es)
  obtain now e where "x = (now, e)" by (cases x)
  with Cons show ?case by (simp add: step_inv)
qed

lemma submit_inv:
  assumes "inj uuid"
  shows "schedInv (submit uuid now p uid s)"
proof -
  let ?task = "setOverallStatus now TaskInProgress (newTask uuid now p uid)"
  have "covered (subTasks ?task) {}"
    using newTask_distinct [OF assms, of now p uid] newTask_subTasks(3) [of uuid now p uid]
    by (auto simp: covered_def isActive_def)
  then show ?thesis
    by (simp add: submit_def initiateNewTransfer_eq processingOf_def schedInv_def procSubTasks_def
          setOverallStatus_def newTask_subTasks(4))
qed

lemma activeSubTasks_bound:
  assumes "schedInv P"
  shows "activeSubTasks P \<le> currentlyActiveSubTasks P"
    and "currentlyActiveSubTasks P \<le> MAX_CONCURRENT_SUB_TASKS"
proof -
  from assms have "covered (procSubTasks P) (pendingWrappers P)" "finite (pendingWrappers P)"
    "card (pendingWrappers P) = currentlyActiveSubTasks P"
    by (simp_all add: schedInv_def)
  from covered_count [OF this(1,2)] this(3)
  have "length (filter isActive (procSubTasks P)) \<le> currentlyActiveSubTasks P"
    by simp
  moreover have "isActive = (\<lambda>st. status st = Connecting \<or> status st = Transferring)"
    by (auto simp: isActive_def fun_eq_iff)
  ultimately show "activeSubTasks P \<le> currentlyActiveSubTasks P"
    by (simp add: activeSubTasks_def procSubTasks_def split: option.splits)
  from assms show "currentlyActiveSubTasks P \<le> MAX_CONCURRENT_SUB_TASKS"
    by (simp add: schedInv_def)
qed

text \<open>
  C8: while a task is processed, under every sequence of events, the number of its
  sub-tasks that are connecting or transferring is at most the concurrency limit, and the
  limit is 5. The identifiers drawn for the task are distinct.
\<close>

theorem concurrency_bound:
  "inj uuid \<Longrightarrow>
     activeSubTasks (run es (submit uuid now p uid s)) \<le> MAX_CONCURRENT_SUB_TASKS
     \<and> MAX_CONCURRENT_SUB_TASKS = 5"
proof -
  assume "inj uuid"
  from run_inv [OF submit_inv [OF this], of es now p uid s]
  have "schedInv (run es (submit uuid now p uid s))" .
  from activeSubTasks_bound [OF this] show ?thesis
    by (simp add: MAX_CONCURRENT_SUB_TASKS_def)
qed

lemma inj_demoUuid: "inj demoUuid"
proof (rule injI)
  fix m n
  assume "demoUuid m = demoUuid n"
  then have "length (demoUuid m) = length (demoUuid n)" by simp
  then show "m = n" by (simp add: demoUuid_def)
qed

theorem concurrency_bound_witness:
  "inj demoUuid
   \<and> processedSubStatuses wideRunning =
       [Connecting, Connecting, Connecting, Connecting, Connecting, Queued, Queued]
   \<and> activeSubTasks wideRunning \<le> MAX_CONCURRENT_SUB_TASKS
   \<and> MAX_CONCURRENT_SUB_TASKS = 5"
proof -
  have "processedSubStatuses wideRunning =
       [Connecting, Connecting, Connecting, Connecting, Connecting, Queued, Queued]"
    by code_simp
  with concurrency_bound [OF inj_demoUuid, of wideEvents 0 widePayload demoOwner emptyService]
    inj_demoUuid
  show ?thesis
    by (simp add: wideRunning_def)
qed

subsection \<open>Where the stored task status leaves the terminal states\<close>

text \<open>
  C2 on the code: the owner cancels the demo task while its two sub-tasks are in flight.
  \<^verbatim>\<open>processTransferTask\<close> resumes with the rejection, its \<^verbatim>\<open>catch\<close> block stores cancelled,
  and \<^verbatim>\<open>finalizeOverallTaskStatus\<close> in its \<^verbatim>\<open>finally\<close> block recomputes the status from
  two cancelled sub-tasks: the function has returned and the task is in-progress, and it
  stays so when the two wrappers have ended.
\<close>

theorem cancelled_task_finishes_in_progress:
  "statusOf (updateOverallTaskStatus 4 (demoUuid 0) TaskCancelled (service demoCancelled)) (demoUuid 0)
     = Some TaskCancelled
   \<and> phase (step 4 Resume demoCancelled) = Finished
   \<and> subStatuses (service (step 4 Resume demoCancelled)) (demoUuid 0) = [Cancelled, Cancelled]
   \<and> statusOf (service (step 4 Resume demoCancelled)) (demoUuid 0) = Some TaskInProgress
   \<and> statusOf (service (run [(4, Resume),
                              (5, SubTaskSettled 0 Cancelled (Some ''Sub-task cancelled by user.'')),
                              (6, SubTaskSettled 1 Cancelled (Some ''Sub-task cancelled by user.''))]
                          demoCancelled)) (demoUuid 0) = Some TaskInProgress"
  by code_simp

text \<open>
  C4 on the code: the source connection of the demo task is not found. The \<^verbatim>\<open>catch\<close>
  block of \<^verbatim>\<open>processTransferTask\<close> stores failed through \<^verbatim>\<open>updateOverallTaskStatus\<close>, and the
  recomputation in \<^verbatim>\<open>finalizeOverallTaskStatus\<close>, which assigns the status without the guard
  of \<^verbatim>\<open>updateOverallTaskStatus\<close>, moves the task back to queued.
\<close>

theorem failed_task_moved_back_to_queued:
  "statusOf (updateOverallTaskStatus 1 (demoUuid 0) TaskFailed (service demoSubmitted)) (demoUuid 0)
     = Some TaskFailed
   \<and> statusOf (finalizeOverallTaskStatus 1 (demoUuid 0)
                 (updateOverallTaskStatus 1 (demoUuid 0) TaskFailed (service demoSubmitted)))
        (demoUuid 0) = Some TaskQueued
   \<and> phase (step 1 (SourceCredentials False) demoSubmitted) = Finished
   \<and> statusOf (service (step 1 (SourceCredentials False) demoSubmitted)) (demoUuid 0)
       = Some TaskQueued"
  by code_simp

subsection \<open>Settling under cancellation\<close>

text \<open>
  C5 on the code: seven sub-tasks, five in flight and two queued, and the owner cancels.
  The listener \<^verbatim>\<open>onAbortOverall\<close> rejects the promise at once: it is settled while the
  scheduler still counts five wrappers in flight, all seven sub-tasks have been set to
  cancelled by \<^verbatim>\<open>cancelTransferTask\<close>, and \<^verbatim>\<open>processTransferTask\<close> returns with the five
  wrappers still in flight.
\<close>

theorem promise_rejected_with_wrappers_in_flight:
  "allTasksCompleted wideRunning = None
   \<and> pendingWrappers wideRunning = {0, 1, 2, 3, 4}
   \<and> allTasksCompleted wideCancelled = Some RejectedAbort
   \<and> currentlyActiveSubTasks wideCancelled = 5
   \<and> pendingWrappers wideCancelled = {0, 1, 2, 3, 4}
   \<and> processedSubStatuses wideCancelled =
       [Cancelled, Cancelled, Cancelled, Cancelled, Cancelled, Cancelled, Cancelled]
   \<and> phase (step 4 Resume wideCancelled) = Finished
   \<and> pendingWrappers (step 4 Resume wideCancelled) = {0, 1, 2, 3, 4}"
  by code_simp

subsection \<open>The key file on the source host\<close>

lemma keeps_ret [intro!]: "keeps I (ret x)"
  by (simp add: keeps_def ret_def)

lemma keeps_throw [intro!]: "keeps I (throw x)"
  by (simp add: keeps_def throw_def)

lemma keeps_andThen [intro!]:
  assumes "keeps I m" "\<And>x. keeps I (f x)"
  shows "keeps I (andThen m f)"
  using assms unfolding keeps_def andThen_def
  by (auto split: prod.splits sum.splits)

lemma keeps_tryCatch [intro!]:
  assumes "keeps I m" "\<And>x. keeps I (h x)"
  shows "keeps I (tryCatch m h)"
  using assms unfolding keeps_def tryCatch_def
  by (auto split: prod.splits sum.splits)

lemma keeps_if [intro!]: "(c \<Longrightarrow> keeps I a) \<Longrightarrow> (\<not> c \<Longrightarrow> keeps I b) \<Longrightarrow> keeps I (if c then a else b)"
  by simp

lemma keeps_checkSignal [intro!]: "keeps I (checkSignal msg)"
  by (simp add: keeps_def checkSignal_def)

lemma keyTracked_suspend [intro!]: "keeps (keyTracked R) (suspend R' tid)"
  by (auto simp: keeps_def suspend_def keyTracked_def split: option.splits prod.splits)

lemma keyTracked_report [intro!]: "keeps (keyTracked R) (report R' tid sid st prog msg)"
  by (simp add: keeps_def report_def keyTracked_def)

lemma keyTracked_probe [intro!]: "keeps (keyTracked R) (probe R' tid found)"
  unfolding probe_def by blast

lemma keyTracked_chooseCommand [intro!]:
  "keeps (keyTracked R) (chooseCommand R' tid preference itemName rsyncPath scpPath)"
  unfolding chooseCommand_def by (cases preference) auto

lemma keyTracked_ensureTargetDirectory [intro!]:
  "keeps (keyTracked R) (ensureTargetDirectory R' tid sid remotePath target)"
proof -
  have "keeps (keyTracked R) (case mkdirResult R' of DirectoryReady \<Rightarrow> ret () | MkdirFailed m \<Rightarrow> throw (Error m))"
    by (cases "mkdirResult R'") auto
  moreover have "keeps (keyTracked R)
      (case err of
         Abort m \<Rightarrow> andThen (report R' tid sid Cancelled None (Some (''Directory creation cancelled: '' @ m)))
                      (\<lambda>_. throw (Abort m))
       | Error m \<Rightarrow> andThen (report R' tid sid Failed None (Some (''Failed to create target directory: '' @ m)))
                      (\<lambda>_. throw (Error (''Failed to create target directory '' @ remotePath @ '': '' @ m))))"
    for err
    by (cases err) auto
  ultimately show ?thesis
    unfolding ensureTargetDirectory_def by blast
qed

lemma keyTracked_brokerCredentials [intro!]:
  "keeps (keyTracked R) (brokerCredentials R tid target creds itemName sshpassPath)"
proof -
  have set_path: "keeps (keyTracked R) (\<lambda>e. (Inr (), e\<lparr>tempTargetKeyPathOnSource := Some (keyPathOf R)\<rparr>))"
    by (auto simp: keeps_def keyTracked_def)
  have upload: "keeps (keyTracked R) (andThen (\<lambda>e. (Inr (), e\<lparr>tempTargetKeyPathOnSource := Some (keyPathOf R)\<rparr>))
                   (\<lambda>_. andThen (perform_effect (UploadKey (keyPathOf R) ok)) f))"
    if "\<And>x. keeps (keyTracked R) (f x)" for ok and f :: "unit \<Rightarrow> (string option \<times> bool) exec"
  proof -
    let ?g = "\<lambda>e. (Inr (), e\<lparr>tempTargetKeyPathOnSource := Some (keyPathOf R),
                               effects := effects e @ [UploadKey (keyPathOf R) ok]\<rparr>) :: (exn + unit) \<times> Exec"
    have "keeps (keyTracked R) ?g"
      by (auto simp: keeps_def keyTracked_def)
    then have "keeps (keyTracked R) (andThen ?g f)"
      using that by (rule keeps_andThen)
    moreover have "andThen (\<lambda>e. (Inr (), e\<lparr>tempTargetKeyPathOnSource := Some (keyPathOf R)\<rparr>))
                   (\<lambda>_. andThen (perform_effect (UploadKey (keyPathOf R) ok)) f) = andThen ?g f"
      by (simp add: andThen_def perform_effect_def fun_eq_iff)
    ultimately show ?thesis
      by simp
  qed
  have result: "keeps (keyTracked R) (case uploadResult R of Uploaded \<Rightarrow> ret () | UploadFailed m \<Rightarrow> throw (Error m))"
    by (cases "uploadResult R") auto
  show ?thesis
    unfolding brokerCredentials_def Let_def keyPathOf_def [symmetric]
    by (intro keeps_if upload keeps_andThen keeps_ret keeps_throw keyTracked_suspend result
          keeps_checkSignal)
qed

lemma keyTracked_onDataAll [intro!]: "keeps (keyTracked R) (onDataAll R' tid sid tool chunks)"
proof (induction chunks)
  case Nil
  then show ?case by auto
next
  case (Cons chunk chunks)
  have "keeps (keyTracked R) (onData R' tid sid tool chunk)"
    by (auto simp: keeps_def onData_def report_def keyTracked_def split: option.splits)
  with Cons show ?case by auto
qed

lemma keyTracked_runTransferCommand [intro!]:
  "keeps (keyTracked R) (runTransferCommand R' tid sid tool executable identity usePass itemName)"
proof -
  have run: "keeps (keyTracked R) (perform_effect (RunTransfer tool executable identity usePass))"
    by (auto simp: keeps_def perform_effect_def keyTracked_def)
  have out: "keeps (keyTracked R)
               (case commandEnd R' of ExecFailed m \<Rightarrow> ret ()
                | _ \<Rightarrow> onDataAll R' tid sid tool (commandOutput R'))"
    by (cases "commandEnd R'") auto
  have fin: "keeps (keyTracked R)
      (case commandEnd R' of
            ExecFailed m \<Rightarrow> throw (Error (''Failed to execute command: '' @ m))
          | CommandTimedOut \<Rightarrow>
              throw (Error (toolName tool @ '' command timed out for '' @ itemName @ ''.''))
          | StreamFailed m \<Rightarrow> throw (Error m)
          | StreamClosed code stderr \<Rightarrow>
              if code = Some 0
              then report R' tid sid Completed (Some 100) (Some (toolName tool @ '' successful.''))
              else throw (Error (toolName tool @ '' failed. Code: ''
                                  @ (case code of None \<Rightarrow> ''null'' | Some c \<Rightarrow> show_int c)
                                  @ ''. Stderr: '' @ stderr)))"
    by (cases "commandEnd R'") auto
  show ?thesis
    unfolding runTransferCommand_def
    by (intro keeps_andThen keeps_if run out fin keyTracked_suspend keeps_throw)
qed

lemma keyTracked_executeBody:
  "keeps (keyTracked R) (executeBody R tid sid sourceItem target creds remotePath preference)"
proof -
  have m: "keeps (keyTracked R) (\<lambda>e. (Inr (), e\<lparr>svc := setTransferMethodUsed tid sid tool (svc e)\<rparr>))"
    for tool
    by (simp add: keeps_def keyTracked_def)
  show ?thesis
    unfolding executeBody_def
    by (intro keeps_andThen keeps_checkSignal keyTracked_probe keyTracked_chooseCommand)
       (auto intro!: m)
qed

lemma keyTracked_executeCatch:
  "keeps (keyTracked R) (executeCatch R tid sid sourceItem err)"
proof -
  have "keeps (keyTracked R)
          (\<lambda>e. case transferTasks (svc e) tid of
                    None \<Rightarrow> (Inr (), e)
                  | Some task \<Rightarrow>
                      (case findSubTask sid (subTasks task) of
                         None \<Rightarrow> (Inr (), e)
                       | Some i \<Rightarrow>
                           if status (subTasks task ! i) \<noteq> Cancelled
                           then report R tid sid Cancelled None (Some m) e
                           else (Inr (), e)))" for m
    by (auto simp: keeps_def report_def keyTracked_def split: option.splits)
  then show ?thesis
    unfolding executeCatch_def by (cases err) auto
qed

lemma keyPathOf_truthy: "truthy (Some (keyPathOf R))" "text_of (Some (keyPathOf R)) = keyPathOf R"
  by (simp_all add: truthy_def text_of_def keyPathOf_def)

lemma suspend_effects:
  "effects (snd (suspend R tid e)) = effects e" "\<exists>c. fst (suspend R tid e) = Inr c"
  by (auto simp: suspend_def split: option.splits prod.splits)

text \<open>After the \<^verbatim>\<open>finally\<close> block the last thing done on the source host is the deletion of every key file that was uploaded.\<close>

lemma executeFinally_removes:
  assumes "keyTracked R e"
  shows "\<forall>p ok. UploadKey p ok \<in> set (effects (snd (executeFinally R tid e)))
           \<longrightarrow> (\<exists>ok'. last (effects (snd (executeFinally R tid e))) = DeleteKey p ok')"
    and "\<exists>u. fst (executeFinally R tid e) = Inr u"
proof -
  from assms consider (none) "tempTargetKeyPathOnSource e = None"
      "\<forall>p ok. UploadKey p ok \<notin> set (effects e)"
    | (some) "tempTargetKeyPathOnSource e = Some (keyPathOf R)"
      "\<forall>p ok. UploadKey p ok \<in> set (effects e) \<longrightarrow> p = keyPathOf R"
    by (auto simp: keyTracked_def)
  then have "(\<forall>p ok. UploadKey p ok \<in> set (effects (snd (executeFinally R tid e)))
           \<longrightarrow> (\<exists>ok'. last (effects (snd (executeFinally R tid e))) = DeleteKey p ok'))
          \<and> (\<exists>u. fst (executeFinally R tid e) = Inr u)"
  proof cases
    case none
    then show ?thesis
      by (simp add: executeFinally_def truthy_def)
  next
    case some
    let ?e1 = "e\<lparr>effects := effects e @ [DeleteKey (keyPathOf R) (\<not> deleteFails R)]\<rparr>"
    from some(1) have eq: "executeFinally R tid e = andThen (suspend R tid) (\<lambda>_. ret ()) ?e1"
      by (simp add: executeFinally_def keyPathOf_truthy andThen_def perform_effect_def)
    obtain c where c: "fst (suspend R tid ?e1) = Inr c"
      using suspend_effects(2) by blast
    then have res: "executeFinally R tid e = (Inr (), snd (suspend R tid ?e1))"
      unfolding eq by (cases "suspend R tid ?e1") (simp add: andThen_def ret_def)
    have "effects (snd (executeFinally R tid e)) = effects e @ [DeleteKey (keyPathOf R) (\<not> deleteFails R)]"
      unfolding res by (simp add: suspend_effects(1))
    with some(2) res show ?thesis
      by auto
  qed
  then show "\<forall>p ok. UploadKey p ok \<in> set (effects (snd (executeFinally R tid e)))
           \<longrightarrow> (\<exists>ok'. last (effects (snd (executeFinally R tid e))) = DeleteKey p ok')"
    and "\<exists>u. fst (executeFinally R tid e) = Inr u"
    by blast+
qed

lemma tryFinally_removes:
  assumes "keeps (keyTracked R) m" "keyTracked R e"
  shows "\<forall>p ok. UploadKey p ok \<in> set (effects (snd (tryFinally m (executeFinally R tid) e)))
           \<longrightarrow> (\<exists>ok'. last (effects (snd (tryFinally m (executeFinally R tid) e))) = DeleteKey p ok')"
proof -
  obtain r e1 where m: "m e = (r, e1)" by (cases "m e")
  with assms have "keyTracked R e1"
    by (auto simp: keeps_def)
  from executeFinally_removes [OF this, of tid] obtain u
    where fin: "fst (executeFinally R tid e1) = Inr u"
      and post: "\<forall>p ok. UploadKey p ok \<in> set (effects (snd (executeFinally R tid e1)))
           \<longrightarrow> (\<exists>ok'. last (effects (snd (executeFinally R tid e1))) = DeleteKey p ok')"
    by blast
  from m fin have "snd (tryFinally m (executeFinally R tid) e) = snd (executeFinally R tid e1)"
    by (cases "executeFinally R tid e1") (simp add: tryFinally_def)
  with post show ?thesis by simp
qed

lemma execute_started:
  "executeRemoteTransferOnSource R tid sid sourceItem target creds remotePath preference (startExec s) =
     tryFinally
       (tryCatch (executeBody R tid sid sourceItem target creds remotePath preference)
          (executeCatch R tid sid sourceItem))
       (executeFinally R tid)
       ((startExec s)\<lparr>svc := updateSubTaskStatus (clock R 0) tid sid Transferring (Some 0)
                               (Some (''Initializing remote transfer for '' @ name sourceItem)) s\<rparr>)"
  by (simp add: executeRemoteTransferOnSource_def andThen_def checkSignal_def report_def startExec_def)

subsection \<open>The result of the deletion is not read\<close>

lemma report_deleteFails [simp]:
  "report (R\<lparr>deleteFails := b\<rparr>) tid sid st prog msg = report R tid sid st prog msg"
  by (simp add: report_def)

lemma suspend_deleteFails [simp]: "suspend (R\<lparr>deleteFails := b\<rparr>) tid = suspend R tid"
  by (auto simp: suspend_def fun_eq_iff split: option.splits prod.splits)

lemma probe_deleteFails [simp]: "probe (R\<lparr>deleteFails := b\<rparr>) tid found = probe R tid found"
  by (simp add: probe_def)

lemma onDataAll_deleteFails [simp]:
  "onDataAll (R\<lparr>deleteFails := b\<rparr>) tid sid tool chunks = onDataAll R tid sid tool chunks"
  by (induction chunks) (simp_all add: onData_def cong: if_cong option.case_cong)

lemma chooseCommand_deleteFails [simp]:
  "chooseCommand (R\<lparr>deleteFails := b\<rparr>) tid preference itemName rsyncPath scpPath =
     chooseCommand R tid preference itemName rsyncPath scpPath"
  by (cases preference) (simp_all add: chooseCommand_def cong: if_cong)

lemma ensureTargetDirectory_deleteFails [simp]:
  "ensureTargetDirectory (R\<lparr>deleteFails := b\<rparr>) tid sid remotePath target =
     ensureTargetDirectory R tid sid remotePath target"
  by (simp add: ensureTargetDirectory_def cong: if_cong exn.case_cong)

lemma brokerCredentials_deleteFails [simp]:
  "brokerCredentials (R\<lparr>deleteFails := b\<rparr>) tid target creds itemName sshpassPath =
     brokerCredentials R tid target creds itemName sshpassPath"
  by (simp add: brokerCredentials_def cong: if_cong)

lemma runTransferCommand_deleteFails [simp]:
  "runTransferCommand (R\<lparr>deleteFails := b\<rparr>) tid sid tool executable identity usePass itemName =
     runTransferCommand R tid sid tool executable identity usePass itemName"
  by (simp add: runTransferCommand_def cong: if_cong command_end.case_cong)

lemma executeBody_deleteFails:
  "executeBody (R\<lparr>deleteFails := b\<rparr>) tid sid sourceItem target creds remotePath preference =
     executeBody R tid sid sourceItem target creds remotePath preference"
  by (simp add: executeBody_def)

lemma executeCatch_deleteFails:
  "executeCatch (R\<lparr>deleteFails := b\<rparr>) tid sid sourceItem = executeCatch R tid sid sourceItem"
proof
  fix err
  show "executeCatch (R\<lparr>deleteFails := b\<rparr>) tid sid sourceItem err = executeCatch R tid sid sourceItem err"
    by (cases err) (simp_all add: executeCatch_def cong: if_cong option.case_cong)
qed

lemma executeFinally_deleteFails:
  "fst (executeFinally (R\<lparr>deleteFails := b\<rparr>) tid e) = fst (executeFinally R tid e)"
  "svc (snd (executeFinally (R\<lparr>deleteFails := b\<rparr>) tid e)) = svc (snd (executeFinally R tid e))"
  by (auto simp: executeFinally_def andThen_def perform_effect_def suspend_def ret_def
           split: option.splits prod.splits)

lemma tryFinally_agree:
  assumes "\<And>e. fst (f e) = fst (g e)" "\<And>e. svc (snd (f e)) = svc (snd (g e))"
  shows "fst (tryFinally m f e) = fst (tryFinally m g e)"
    and "svc (snd (tryFinally m f e)) = svc (snd (tryFinally m g e))"
proof -
  obtain r e1 where m: "m e = (r, e1)" by (cases "m e")
  obtain a e2 where f: "f e1 = (a, e2)" by (cases "f e1")
  obtain a' e2' where g: "g e1 = (a', e2')" by (cases "g e1")
  from assms [of e1] f g have "a = a'" "svc e2 = svc e2'"
    by simp_all
  with m f g show "fst (tryFinally m f e) = fst (tryFinally m g e)"
    and "svc (snd (tryFinally m f e)) = svc (snd (tryFinally m g e))"
    by (cases a'; simp add: tryFinally_def)+
qed

text \<open>
  C7: in every run of \<^verbatim>\<open>executeRemoteTransferOnSource\<close>, whatever the hosts answer, whenever
  the owner cancels and however the run ends, if a key file was uploaded to a path on the
  source host then the last thing the run did on the source host before it returned is the
  attempt to delete that path; and the result of the run and the service after it, with
  the status of every sub-task, are the same whether the deletion fails or not.
\<close>

theorem key_file_removed:
  "(\<forall>p ok. UploadKey p ok \<in> set (effects (snd (executeRemoteTransferOnSource R tid sid sourceItem
                  target creds remotePath preference (startExec s))))
      \<longrightarrow> (\<exists>ok'. last (effects (snd (executeRemoteTransferOnSource R tid sid sourceItem
                  target creds remotePath preference (startExec s)))) = DeleteKey p ok'))
   \<and> fst (executeRemoteTransferOnSource (R\<lparr>deleteFails := b\<rparr>) tid sid sourceItem
            target creds remotePath preference (startExec s))
       = fst (executeRemoteTransferOnSource R tid sid sourceItem
            target creds remotePath preference (startExec s))
   \<and> svc (snd (executeRemoteTransferOnSource (R\<lparr>deleteFails := b\<rparr>) tid sid sourceItem
            target creds remotePath preference (startExec s)))
       = svc (snd (executeRemoteTransferOnSource R tid sid sourceItem
            target creds remotePath preference (startExec s)))"
proof -
  let ?e0 = "(startExec s)\<lparr>svc := updateSubTaskStatus (clock R 0) tid sid Transferring (Some 0)
                               (Some (''Initializing remote transfer for '' @ name sourceItem)) s\<rparr>"
  let ?m = "tryCatch (executeBody R tid sid sourceItem target creds remotePath preference)
              (executeCatch R tid sid sourceItem)"
  have start: "keyTracked R ?e0"
    by (simp add: keyTracked_def startExec_def)
  have "keeps (keyTracked R) ?m"
    by (intro keeps_tryCatch keyTracked_executeBody keyTracked_executeCatch)
  from tryFinally_removes [OF this start, of tid]
  have removed: "\<forall>p ok. UploadKey p ok \<in> set (effects (snd (tryFinally ?m (executeFinally R tid) ?e0)))
           \<longrightarrow> (\<exists>ok'. last (effects (snd (tryFinally ?m (executeFinally R tid) ?e0))) = DeleteKey p ok')" .
  have same: "executeRemoteTransferOnSource (R\<lparr>deleteFails := b\<rparr>) tid sid sourceItem
            target creds remotePath preference (startExec s)
          = tryFinally ?m (executeFinally (R\<lparr>deleteFails := b\<rparr>) tid) ?e0"
    by (simp add: execute_started executeBody_deleteFails executeCatch_deleteFails)
  show ?thesis
    unfolding same unfolding execute_started
    using removed
      tryFinally_agree [of "executeFinally (R\<lparr>deleteFails := b\<rparr>) tid" "executeFinally R tid" ?m ?e0,
        OF executeFinally_deleteFails]
    by blast
qed

theorem key_file_removed_witness:
  "UploadKey ''/tmp/nexus_target_key_a1b2c3d4e5f6'' True \<in> set (effects (snd (demoExecution demoRemote)))
   \<and> (\<exists>ok'. last (effects (snd (demoExecution demoRemote)))
              = DeleteKey ''/tmp/nexus_target_key_a1b2c3d4e5f6'' ok')
   \<and> deleteFails demoRemote
   \<and> fst (demoExecution (demoRemote\<lparr>deleteFails := False\<rparr>)) = fst (demoExecution demoRemote)
   \<and> subStatuses (svc (snd (demoExecution (demoRemote\<lparr>deleteFails := False\<rparr>)))) (demoUuid 0)
       = subStatuses (svc (snd (demoExecution demoRemote))) (demoUuid 0)
   \<and> subStatuses (svc (snd (demoExecution demoRemote))) (demoUuid 0) = [Completed, Connecting]"
proof -
  have up: "UploadKey ''/tmp/nexus_target_key_a1b2c3d4e5f6'' True
              \<in> set (effects (snd (demoExecution demoRemote)))"
    by code_simp
  have fails: "deleteFails demoRemote"
    by code_simp
  have sts: "subStatuses (svc (snd (demoExecution demoRemote))) (demoUuid 0) = [Completed, Connecting]"
    by code_simp
  note rule = key_file_removed [of demoRemote "demoUuid 0" "demoUuid 1" demoItem demoTarget
      demoCredentials "''/backup''" Auto "service demoRunning" False, folded demoExecution_def]
  from rule up have "\<exists>ok'. last (effects (snd (demoExecution demoRemote)))
              = DeleteKey ''/tmp/nexus_target_key_a1b2c3d4e5f6'' ok'"
    by blast
  moreover from rule have "fst (demoExecution (demoRemote\<lparr>deleteFails := False\<rparr>)) = fst (demoExecution demoRemote)"
    and "svc (snd (demoExecution (demoRemote\<lparr>deleteFails := False\<rparr>))) = svc (snd (demoExecution demoRemote))"
    by blast+
  ultimately show ?thesis
    using up fails sts by simp
qed

end
